theory Spec2Isabelle
  imports Main "HOL-Library.Multiset" "HOL-Library.AList"
begin

section \<open>Cards\<close>

text \<open>
  A \<open>Card\<close> object of \<open>MayI.js\<close>: the constructor stores its five arguments.
  Ranks and suits are the strings of the source; \<open>id\<close>, \<open>value\<close> and \<open>order\<close> are
  JavaScript numbers, always integers in this program.
\<close>

record Card =
  card_id :: int
  card_rank :: string
  card_suit :: string
  card_value :: int
  card_order :: int

text \<open>
  The constants of the module: the suits, the ranks (one array in the source, written
  here as two pieces appended), and the two \<open>Map\<close>s from a rank to its score value and
  to its order. The rank of order 2 is the wildcard.
\<close>

definition suits :: "string list" where
  "suits = [''Clubs'', ''Diamonds'', ''Hearts'', ''Spades'']"

definition ranks :: "string list" where
  "ranks = [''A'', ''2'', ''3'', ''4'', ''5'', ''6''] @ [''7'', ''8'', ''9'', ''10'', ''J'', ''Q'', ''K'']"

definition values_map :: "(string \<times> int) list" where
  "values_map = [(''A'', 1), (''2'', 20), (''3'', 3), (''4'', 4), (''5'', 5), (''6'', 6), (''7'', 7),
     (''8'', 8), (''9'', 9), (''10'', 10), (''J'', 10), (''Q'', 10), (''K'', 10)]"

definition order_map :: "(string \<times> int) list" where
  "order_map = [(''A'', 1), (''2'', 2), (''3'', 3), (''4'', 4), (''5'', 5), (''6'', 6), (''7'', 7),
     (''8'', 8), (''9'', 9), (''10'', 10), (''J'', 11), (''Q'', 12), (''K'', 13)]"

text \<open>
  \<open>new Card(counter, r, s, values.get(r), order.get(r))\<close>, as the deck builds its cards.
  Every rank of \<open>ranks\<close> is a key of both maps (lemma \<open>ranks_have_entries\<close> below), so
  \<open>the\<close> is only ever applied to a found entry.
\<close>

definition Card_new :: "int \<Rightarrow> string \<Rightarrow> string \<Rightarrow> Card" where
  "Card_new counter r s =
     \<lparr>card_id = counter, card_rank = r, card_suit = s,
      card_value = the (map_of values_map r), card_order = the (map_of order_map r)\<rparr>"

section \<open>The meld validator\<close>

text \<open>
  \<open>Meld.isSet\<close>: the loop over the cards with the running value \<open>val\<close> (initially 0).
  The test \<open>!val\<close> of the source holds exactly when \<open>val\<close> is 0.
\<close>

fun isSet_loop :: "int \<Rightarrow> Card list \<Rightarrow> bool" where
  "isSet_loop val [] = True"
| "isSet_loop val (c # cards) =
     (if card_order c = 2 then isSet_loop val cards
      else if val = 0 then isSet_loop (card_order c) cards
      else if val \<noteq> card_order c then False
      else isSet_loop val cards)"

definition isSet :: "Card list \<Rightarrow> bool" where
  "isSet cards = isSet_loop 0 cards"

text \<open>
  \<open>Meld.isRun\<close> works in place on the array it is given, so the model returns the
  final content of that array next to the verdict.

  First loop: \<open>i\<close> runs from \<open>cards.length - 1\<close> down to 0 and every card of order 2 is
  spliced out of \<open>cards\<close> and pushed on \<open>wildCards\<close>. The first argument of
  \<open>extract_wild\<close> is \<open>i + 1\<close>.
\<close>

fun extract_wild :: "nat \<Rightarrow> Card list \<Rightarrow> Card list \<Rightarrow> Card list \<times> Card list" where
  "extract_wild 0 cards wildCards = (cards, wildCards)"
| "extract_wild (Suc i) cards wildCards =
     (if card_order (cards ! i) = 2
      then extract_wild i (take i cards @ drop (Suc i) cards) (wildCards @ [cards ! i])
      else extract_wild i cards wildCards)"

text \<open>Second loop: neighbouring cards must have the same suit.\<close>

fun same_suit :: "Card list \<Rightarrow> bool" where
  "same_suit (a # b # cards) = (if card_suit a \<noteq> card_suit b then False else same_suit (b # cards))"
| "same_suit cards = True"

text \<open>
  Third loop, \<open>while (i < cards.length)\<close>: a card that does not carry the expected
  order \<open>val\<close> makes the loop fail when no wildcard is left, and otherwise has the last
  wildcard spliced in before it (\<open>cards.splice(i, 0, wildCards.pop())\<close>). The result is
  the verdict with the two arrays as the loop leaves them.
\<close>

function run_loop :: "nat \<Rightarrow> int \<Rightarrow> Card list \<Rightarrow> Card list \<Rightarrow> bool \<times> Card list \<times> Card list" where
  "run_loop i val cards wildCards =
     (if i < length cards then
        (if card_order (cards ! i) \<noteq> val \<and> wildCards = [] then (False, cards, wildCards)
         else if card_order (cards ! i) \<noteq> val
           then run_loop (i + 1) (val + 1) (take i cards @ [last wildCards] @ drop i cards)
                  (butlast wildCards)
         else run_loop (i + 1) (val + 1) cards wildCards)
      else (True, cards, wildCards))"
  by pat_completeness auto
termination
  by (relation "measure (\<lambda>(i, val, cards, wildCards). length cards - i + length wildCards)")
    (auto simp: neq_Nil_conv)

declare run_loop.simps [simp del]

definition isRun :: "Card list \<Rightarrow> bool \<times> Card list" where
  "isRun cards0 =
     (case extract_wild (length cards0) (sort_key card_order cards0) [] of
        (cards, wildCards) \<Rightarrow>
          if \<not> same_suit cards then (False, cards)
          else
            (case run_loop 1 (if cards \<noteq> [] then card_order (cards ! 0) + 1 else 0) cards wildCards of
               (False, cards', wildCards') \<Rightarrow> (False, cards')
             | (True, cards', wildCards') \<Rightarrow> (True, cards' @ wildCards')))"

section \<open>Melds\<close>

datatype MeldType = SET | RUN | EITHER

text \<open>
  What a call can end in besides a result: the \<open>Error("Invalid Meld")\<close> of the \<open>Meld\<close>
  constructor, a TypeError (a property read from \<open>undefined\<close> or \<open>null\<close>), and
  \<open>UndefinedCard\<close>, which is no exception of the source: see the section on the game.
\<close>

datatype error = InvalidMeld | TypeError | UndefinedCard

text \<open>
  A \<open>Meld\<close> object. The id is \<open>null\<close> for the melds built while probing an addition
  or a swap, and the owner is \<open>null\<close> when no player is given.
\<close>

record Meld =
  meld_id :: "int option"
  meld_cards :: "Card list"
  meld_type :: MeldType
  meld_playerID :: "string option"

text \<open>
  The constructor hands a copy of the group (\<open>[...cards]\<close>) to each check, so the array
  \<open>isRun\<close> leaves behind is dropped, and throws \<open>Invalid Meld\<close> when both checks fail.
  The third argument is the id of the owning player (\<open>player.id\<close>) when there is one.
\<close>

definition Meld_new :: "int option \<Rightarrow> Card list \<Rightarrow> string option \<Rightarrow> error + Meld" where
  "Meld_new i cards player =
     (let is_run = fst (isRun cards); is_set = isSet cards in
      if \<not> is_run \<and> \<not> is_set then Inl InvalidMeld
      else Inr \<lparr>meld_id = i, meld_cards = cards,
                meld_type = (if is_run \<and> is_set then EITHER else if is_run then RUN else SET),
                meld_playerID = player\<rparr>)"

text \<open>\<open>Meld.addCard\<close>: the probe meld is built first; a throw is caught and gives \<open>false\<close>.\<close>

definition addCard :: "Meld \<Rightarrow> Card \<Rightarrow> bool \<times> Meld" where
  "addCard m c =
     (case Meld_new None (meld_cards m @ [c]) None of
        Inl e \<Rightarrow> (False, m)
      | Inr probe \<Rightarrow> (True, m\<lparr>meld_cards := sort_key card_order (meld_cards m @ [c])\<rparr>))"

text \<open>
  \<open>Meld.swap\<close>. The first loop, outside the \<open>try\<close>, reads \<open>meldCard.id\<close> for every card
  of the meld, so an \<open>undefined\<close> meldCard (\<open>None\<close>) is a TypeError as soon as the
  meld has a card. Inside the \<open>try\<close> the first card with the id of meldCard is replaced
  (\<open>splice(i, 1, playerCard)\<close>, then \<open>break\<close>) and the cards are sorted again.
\<close>

fun replace_first :: "int \<Rightarrow> Card \<Rightarrow> Card list \<Rightarrow> Card list" where
  "replace_first k playerCard [] = []"
| "replace_first k playerCard (c # cs) =
     (if card_id c = k then playerCard # cs else c # replace_first k playerCard cs)"

definition swap :: "Meld \<Rightarrow> Card option \<Rightarrow> Card \<Rightarrow> error + bool \<times> Meld" where
  "swap m meldCard playerCard =
     (case meldCard of
        None \<Rightarrow>
          (if meld_cards m \<noteq> [] then Inl TypeError
           else (case Meld_new None [playerCard] None of
                   Inl e \<Rightarrow> Inr (False, m)
                 | Inr probe \<Rightarrow> Inr (True, m\<lparr>meld_cards := sort_key card_order (meld_cards m)\<rparr>)))
      | Some mc \<Rightarrow>
          (case Meld_new None (playerCard # filter (\<lambda>c. card_id c \<noteq> card_id mc) (meld_cards m)) None of
             Inl e \<Rightarrow> Inr (False, m)
           | Inr probe \<Rightarrow>
               Inr (True, m\<lparr>meld_cards :=
                      sort_key card_order (replace_first (card_id mc) playerCard (meld_cards m))\<rparr>)))"

section \<open>The deck\<close>

record Deck =
  deck :: "Card list"
  discarded :: "Card list"

text \<open>
  The three nested loops of the \<open>Deck\<close> constructor, innermost first. The counter of
  card ids runs through all of them.
\<close>

fun copies_loop :: "nat \<Rightarrow> int \<Rightarrow> string \<Rightarrow> string \<Rightarrow> Card list" where
  "copies_loop 0 counter r s = []"
| "copies_loop (Suc n) counter r s = Card_new counter r s # copies_loop n (counter + 1) r s"

fun ranks_loop :: "string list \<Rightarrow> nat \<Rightarrow> int \<Rightarrow> string \<Rightarrow> Card list" where
  "ranks_loop [] decks counter s = []"
| "ranks_loop (r # rs) decks counter s =
     copies_loop decks counter r s @ ranks_loop rs decks (counter + int decks) s"

fun suits_loop :: "string list \<Rightarrow> string list \<Rightarrow> nat \<Rightarrow> int \<Rightarrow> Card list" where
  "suits_loop [] rs decks counter = []"
| "suits_loop (s # ss) rs decks counter =
     ranks_loop rs decks counter s @ suits_loop ss rs decks (counter + int (length rs * decks))"

text \<open>
  \<open>shuffle\<close>: for every index \<open>i\<close> of the deck, in order, the card at \<open>i\<close> and the card at a
  random index are exchanged. \<open>Math.floor(Math.random() * this.deck.length)\<close> is some
  index of the deck; the random source is a function \<open>rnd\<close> from the step to a natural
  number, reduced into the range of indices.
\<close>

definition shuffle :: "(nat \<Rightarrow> nat) \<Rightarrow> Card list \<Rightarrow> Card list" where
  "shuffle rnd cards =
     fold (\<lambda>i d. let randomCard = rnd i mod length d in d[i := d ! randomCard, randomCard := d ! i])
       [0..<length cards] cards"

definition Deck_new :: "(nat \<Rightarrow> nat) \<Rightarrow> string list \<Rightarrow> string list \<Rightarrow> nat \<Rightarrow> bool \<Rightarrow> Deck" where
  "Deck_new rnd ss rs decks do_shuffle =
     (let cards = suits_loop ss rs decks 1
      in \<lparr>deck = (if do_shuffle then shuffle rnd cards else cards), discarded = []\<rparr>)"

definition discardCard :: "Deck \<Rightarrow> Card \<Rightarrow> Deck" where
  "discardCard d c = d\<lparr>discarded := discarded d @ [c]\<rparr>"

definition reDeck :: "(nat \<Rightarrow> nat) \<Rightarrow> Deck \<Rightarrow> Deck" where
  "reDeck rnd d = \<lparr>deck = shuffle rnd (deck d @ discarded d), discarded = []\<rparr>"

text \<open>\<open>drawCard\<close> is \<open>this.deck.shift()\<close>: \<open>undefined\<close> (\<open>None\<close>) on an empty draw pile.\<close>

definition drawCard :: "Deck \<Rightarrow> Card option \<times> Deck" where
  "drawCard d = (case deck d of [] \<Rightarrow> (None, d) | c # cs \<Rightarrow> (Some c, d\<lparr>deck := cs\<rparr>))"

text \<open>The requirement of each round: the number of groups and their minimum length.\<close>

record RoundMeld =
  rm_id :: int
  rm_name :: string
  rm_sets :: nat
  rm_length :: nat

definition melds :: "RoundMeld list" where
  "melds =
     [\<lparr>rm_id = 1, rm_name = ''Two Threes'', rm_sets = 2, rm_length = 3\<rparr>,
      \<lparr>rm_id = 2, rm_name = ''One Four'', rm_sets = 1, rm_length = 4\<rparr>,
      \<lparr>rm_id = 3, rm_name = ''Two Fours'', rm_sets = 2, rm_length = 4\<rparr>,
      \<lparr>rm_id = 4, rm_name = ''One Five'', rm_sets = 1, rm_length = 5\<rparr>,
      \<lparr>rm_id = 5, rm_name = ''One Six'', rm_sets = 1, rm_length = 6\<rparr>,
      \<lparr>rm_id = 6, rm_name = ''Two Fives'', rm_sets = 2, rm_length = 5\<rparr>]"

section \<open>Players\<close>

record Player =
  player_id :: string
  socketId :: "string option"
  player_name :: string
  buys :: int
  points :: int
  hand :: "Card list"

definition Player_new :: "string \<Rightarrow> string option \<Rightarrow> string \<Rightarrow> Player" where
  "Player_new i sid n =
     \<lparr>player_id = i, socketId = sid, player_name = n, buys = 6, points = 0, hand = []\<rparr>"

text \<open>
  The loop shared by \<open>Player.removeCard\<close>, \<open>discard\<close> and \<open>meld\<close>:
  \<open>for (i = 0; i < hand.length; i++) if (hand[i].id === id) hand.splice(i, 1)\<close>.
  After a splice the next card has moved to index \<open>i\<close> and the \<open>i++\<close> steps over it,
  so the card behind a removed card is kept without being compared.
\<close>

fun remove_loop :: "int \<Rightarrow> Card list \<Rightarrow> Card list" where
  "remove_loop k [] = []"
| "remove_loop k [c] = (if card_id c = k then [] else [c])"
| "remove_loop k (c # d # cs) =
     (if card_id c = k then d # remove_loop k cs else c # remove_loop k (d # cs))"

definition removeCard :: "Player \<Rightarrow> Card \<Rightarrow> Player" where
  "removeCard p c = p\<lparr>hand := remove_loop (card_id c) (hand p)\<rparr>"

section \<open>The game\<close>

text \<open>
  The \<open>MayI\<close> object. \<open>players\<close> is a JavaScript object used as a dictionary whose
  keys are iterated in insertion order: an association list with \<open>map_of\<close> for the
  lookup, \<open>AList.update\<close> for the assignment (in place for a known key, at the end for
  a new one) and \<open>AList.delete\<close> for \<open>delete\<close>. \<open>deck\<close> is \<open>null\<close> until the first deal.
  The keys of the list are distinct, as the keys of an object are. (JavaScript would
  iterate keys that are canonical array indices first, in numeric order; the order of
  the players only decides who is dealt which card.) \<open>turn\<close> starts at 0 and is only
  ever reset to 0 or incremented.

  A hand and a pile of the model hold cards only. There are four places where the
  source stores \<open>undefined\<close> in a hand or a pile and returns normally: \<open>deal\<close> and
  \<open>draw\<close> when \<open>deck.shift()\<close> finds the draw pile empty, \<open>buy\<close> when
  \<open>discarded.pop()\<close> finds the discard pile empty (or its draw finds the draw pile
  empty), and \<open>swapWithMeld\<close> when the meld has no card at all. The state these calls
  leave cannot be written in the model, which ends there with the outcome
  \<open>UndefinedCard\<close>: it marks a call of the source that returns, not one that throws,
  and nothing is proved here about what the source does afterwards. Every statement
  below that depends on one of these operations says which calls it covers.
\<close>

record MayI =
  players :: "(string \<times> Player) list"
  connectedPlayerCount :: int
  game_deck :: "Deck option"
  game_round :: int
  turn :: nat
  turnOrder :: "string list"
  game_melds :: "Meld list"

definition MayI_new :: MayI where
  "MayI_new = \<lparr>players = [], connectedPlayerCount = 0, game_deck = None, game_round = 1,
     turn = 0, turnOrder = [], game_melds = []\<rparr>"




definition incrementTurn :: "MayI \<Rightarrow> MayI" where
  "incrementTurn st =
     (let numberOfPlayers = length (players st)
      in if int (turn st) = int numberOfPlayers - 1 then st\<lparr>turn := 0\<rparr>
         else st\<lparr>turn := turn st + 1\<rparr>)"

definition addPlayer :: "MayI \<Rightarrow> string \<Rightarrow> string option \<Rightarrow> string \<Rightarrow> MayI" where
  "addPlayer st i sid n =
     (if map_of (players st) i = None
      then st\<lparr>players := AList.update i (Player_new i sid n) (players st),
              turnOrder := turnOrder st @ [i],
              connectedPlayerCount := connectedPlayerCount st + 1\<rparr>
      else st)"

text \<open>
  \<open>deal\<close>: eleven passes over the players, one card each, then the opening discard.
\<close>

fun deal_pass :: "(string \<times> Player) list \<Rightarrow> Deck \<Rightarrow> error + (string \<times> Player) list \<times> Deck" where
  "deal_pass [] d = Inr ([], d)"
| "deal_pass ((k, p) # ps) d =
     (case drawCard d of
        (None, d') \<Rightarrow> Inl UndefinedCard
      | (Some c, d') \<Rightarrow>
          (case deal_pass ps d' of
             Inl e \<Rightarrow> Inl e
           | Inr (ps', d'') \<Rightarrow> Inr ((k, p\<lparr>hand := hand p @ [c]\<rparr>) # ps', d'')))"

fun deal_loop :: "nat \<Rightarrow> (string \<times> Player) list \<Rightarrow> Deck \<Rightarrow> error + (string \<times> Player) list \<times> Deck" where
  "deal_loop 0 ps d = Inr (ps, d)"
| "deal_loop (Suc n) ps d =
     (case deal_pass ps d of Inl e \<Rightarrow> Inl e | Inr (ps', d') \<Rightarrow> deal_loop n ps' d')"

definition deal :: "(nat \<Rightarrow> nat) \<Rightarrow> MayI \<Rightarrow> error + MayI" where
  "deal rnd st =
     (case deal_loop 11 (players st) (Deck_new rnd suits ranks 2 True) of
        Inl e \<Rightarrow> Inl e
      | Inr (ps, d) \<Rightarrow>
          (case drawCard d of
             (None, d') \<Rightarrow> Inl UndefinedCard
           | (Some c, d') \<Rightarrow> Inr (st\<lparr>players := ps, game_deck := Some (discardCard d' c)\<rparr>)))"


text \<open>
  \<open>discard\<close> returns nothing (\<open>None\<close>) when it is not the player's turn, and \<open>true\<close>
  otherwise. The last test of the source, \<open>!hand.length !== 0\<close>, compares a boolean
  with a number and is always true: the turn always advances.
\<close>

definition discard :: "MayI \<Rightarrow> string \<Rightarrow> Card \<Rightarrow> error + bool option \<times> MayI" where
  "discard st player c =
     (if \<not> (turn st < length (turnOrder st) \<and> turnOrder st ! turn st = player) then Inr (None, st)
      else
        (case map_of (players st) player of
           None \<Rightarrow> Inl TypeError
         | Some p \<Rightarrow>
             (case game_deck st of
                None \<Rightarrow> Inl TypeError
              | Some d \<Rightarrow>
                  Inr (Some True,
                    incrementTurn
                      (st\<lparr>players :=
                            AList.update player (p\<lparr>hand := remove_loop (card_id c) (hand p)\<rparr>) (players st),
                          game_deck := Some (discardCard d c)\<rparr>)))))"

definition endRound :: "(nat \<Rightarrow> nat) \<Rightarrow> MayI \<Rightarrow> error + MayI" where
  "endRound rnd st =
     (let st' = st\<lparr>players :=
                     map (\<lambda>(k, p). (k, p\<lparr>points := points p + sum_list (map card_value (hand p)),
                                           hand := []\<rparr>)) (players st),
                   game_round := game_round st + 1,
                   game_melds := []\<rparr>
      in if game_round st' \<le> 6 then deal rnd st' else Inr st')"




definition hasMeld :: "MayI \<Rightarrow> string \<Rightarrow> bool" where
  "hasMeld st playerID = list_ex (\<lambda>m. meld_playerID m = Some playerID) (game_melds st)"

text \<open>
  \<open>meld\<close>. The first loop builds a meld for every group, with the ids
  \<open>this.melds.length + i\<close>; \<open>round_check\<close> is the block guarded by \<open>!this.hasMeld(player)\<close>,
  false where the source returns false there, also through the TypeError that
  \<open>melds[this.round - 1]\<close> gives outside rounds 1 to 6. Every throw is caught by the
  \<open>try\<close> around the whole body and gives \<open>false\<close>.
\<close>

fun build_melds :: "nat \<Rightarrow> string option \<Rightarrow> Card list list \<Rightarrow> error + Meld list" where
  "build_melds n owner [] = Inr []"
| "build_melds n owner (g # gs) =
     (case Meld_new (Some (int n)) g owner of
        Inl e \<Rightarrow> Inl e
      | Inr m \<Rightarrow>
          (case build_melds (n + 1) owner gs of Inl e \<Rightarrow> Inl e | Inr ms \<Rightarrow> Inr (m # ms)))"

definition round_check :: "int \<Rightarrow> Meld list \<Rightarrow> bool" where
  "round_check r m =
     (if 1 \<le> r \<and> r \<le> int (length melds) then
        (let roundMeld = melds ! nat (r - 1)
         in if length m \<noteq> rm_sets roundMeld then False
            else list_all (\<lambda>n. \<not> (length (meld_cards n) < rm_length roundMeld \<or> meld_type n = RUN)) m)
      else False)"

definition meld :: "MayI \<Rightarrow> string \<Rightarrow> Card list list \<Rightarrow> bool \<times> MayI" where
  "meld st player newMelds =
     (case build_melds (length (game_melds st))
             (map_option player_id (map_of (players st) player)) newMelds of
        Inl e \<Rightarrow> (False, st)
      | Inr m \<Rightarrow>
          (case map_of (players st) player of
             None \<Rightarrow> (False, st)
           | Some p \<Rightarrow>
               if sum_list (map length newMelds) = length (hand p) then (False, st)
               else if \<not> hasMeld st player \<and> \<not> round_check (game_round st) m then (False, st)
               else
                 (True,
                  st\<lparr>players :=
                       AList.update player
                         (p\<lparr>hand := fold (\<lambda>c h. remove_loop (card_id c) h) (concat newMelds) (hand p)\<rparr>)
                         (players st),
                     game_melds := game_melds st @ m\<rparr>)))"

definition isValidMeld :: "MayI \<Rightarrow> Card list \<Rightarrow> bool" where
  "isValidMeld st cards = (case Meld_new (Some (- 1)) cards None of Inl e \<Rightarrow> False | Inr m \<Rightarrow> True)"

text \<open>
  \<open>swapWithMeld\<close> and \<open>addToMeld\<close> work on the first meld with the given id, found by
  \<open>this.melds.find\<close>; a meld that is not found is \<open>undefined\<close>, and reading its cards a
  TypeError. The meld is an object of the list \<open>this.melds\<close> and changes in place:
  \<open>update_meld\<close> puts the changed meld where the found one stands.
\<close>

fun update_meld :: "int \<Rightarrow> Meld \<Rightarrow> Meld list \<Rightarrow> Meld list" where
  "update_meld meldID m' [] = []"
| "update_meld meldID m' (m # ms) =
     (if meld_id m = Some meldID then m' # ms else m # update_meld meldID m' ms)"

definition swapWithMeld :: "MayI \<Rightarrow> string \<Rightarrow> Card \<Rightarrow> int \<Rightarrow> error + bool \<times> MayI" where
  "swapWithMeld st player playerCard meldID =
     (if \<not> hasMeld st player then Inr (False, st)
      else
        (case find (\<lambda>m. meld_id m = Some meldID) (game_melds st) of
           None \<Rightarrow> Inl TypeError
         | Some m \<Rightarrow>
             (let meldCard = find (\<lambda>c. card_order c = 2) (meld_cards m)
              in case swap m meldCard playerCard of
                   Inl e \<Rightarrow> Inl e
                 | Inr (False, m') \<Rightarrow> Inr (False, st)
                 | Inr (True, m') \<Rightarrow>
                     (case map_of (players st) player of
                        None \<Rightarrow> Inl TypeError
                      | Some p \<Rightarrow>
                          if list_ex (\<lambda>c. card_id c = card_id playerCard) (hand p) then
                            (case meldCard of
                               None \<Rightarrow> Inl UndefinedCard
                             | Some mc \<Rightarrow>
                                 Inr (True,
                                   st\<lparr>players :=
                                        AList.update player
                                          (p\<lparr>hand := replace_first (card_id playerCard) mc (hand p)\<rparr>)
                                          (players st),
                                      game_melds := update_meld meldID m' (game_melds st)\<rparr>))
                          else Inr (True, st\<lparr>game_melds := update_meld meldID m' (game_melds st)\<rparr>)))))"

text \<open>
  \<open>addToMeld\<close>: \<open>meld.addCard(card)\<close> runs first and, when the longer meld is valid,
  has already put the card into the meld when the size of the hand is tested.
\<close>

definition addToMeld :: "MayI \<Rightarrow> string \<Rightarrow> Card \<Rightarrow> int \<Rightarrow> error + bool \<times> MayI" where
  "addToMeld st player c meldID =
     (case find (\<lambda>m. meld_id m = Some meldID) (game_melds st) of
        None \<Rightarrow> Inl TypeError
      | Some m \<Rightarrow>
          (case addCard m c of
             (x, m') \<Rightarrow>
               (case map_of (players st) player of
                  None \<Rightarrow> Inl TypeError
                | Some p \<Rightarrow>
                    if length (hand p) > 1 \<and> x
                    then Inr (True,
                           st\<lparr>players := AList.update player (removeCard p c) (players st),
                              game_melds := update_meld meldID m' (game_melds st)\<rparr>)
                    else Inr (False, st\<lparr>game_melds := update_meld meldID m' (game_melds st)\<rparr>))))"

section \<open>The validator as the specification words it\<close>

text \<open>
  The specification of \<open>isRun\<close>: with the wildcards (order 2) taken out, the remaining
  cards share one suit and, sorted by order, ascend strictly, and the wildcards are
  at least as many as the values missing between neighbours (\<open>gaps\<close>). Wildcards left
  over are accepted.
\<close>

fun gaps :: "int list \<Rightarrow> int" where
  "gaps (a # b # os) = (b - a - 1) + gaps (b # os)"
| "gaps os = 0"

definition spec_isRun :: "Card list \<Rightarrow> bool" where
  "spec_isRun cards =
     (let rest = filter (\<lambda>c. card_order c \<noteq> 2) cards;
          wild = filter (\<lambda>c. card_order c = 2) cards;
          os = sort (map card_order rest)
      in list_all (\<lambda>c. list_all (\<lambda>d. card_suit c = card_suit d) rest) rest
         \<and> sorted_wrt (<) os \<and> gaps os \<le> int (length wild))"

text \<open>
  The specification of \<open>isSet\<close>: every card that is no wildcard has the same order
  as every other one; a group of wildcards only is a set. A meld is a group of at
  least three cards that is a set or a run, and its type is EITHER when it is both.
\<close>

definition spec_isSet :: "Card list \<Rightarrow> bool" where
  "spec_isSet cards =
     (let rest = filter (\<lambda>c. card_order c \<noteq> 2) cards
      in list_all (\<lambda>c. list_all (\<lambda>d. card_order c = card_order d) rest) rest)"

definition spec_valid_meld :: "Card list \<Rightarrow> bool" where
  "spec_valid_meld g = (3 \<le> length g \<and> (spec_isSet g \<or> spec_isRun g))"

definition spec_type :: "Card list \<Rightarrow> MeldType" where
  "spec_type g = (if spec_isSet g \<and> spec_isRun g then EITHER else if spec_isRun g then RUN else SET)"

text \<open>
  The third loop of \<open>isRun\<close> seen from the orders of the cards still to be visited and
  the number of wildcards left; used to relate the loop to \<open>gaps\<close>.
\<close>

function fill :: "int \<Rightarrow> int list \<Rightarrow> nat \<Rightarrow> bool" where
  "fill val [] w = True"
| "fill val (a # os) w =
     (if a = val then fill (val + 1) os w
      else if w = 0 then False
      else fill (val + 1) (a # os) (w - 1))"
  by pat_completeness auto
termination
  by (relation "measure (\<lambda>(val, os, w). length os + w)") auto

section \<open>The game operations as the specification words them\<close>





text \<open>
  \<open>meld\<close>: \<open>claimed_shape\<close> is the table of the specification, the number of groups
  and the minimum length of a first meld in the rounds 1 to 6.
\<close>

definition claimed_shape :: "int \<Rightarrow> nat \<times> nat" where
  "claimed_shape r =
     (if r = 1 then (2, 3) else if r = 2 then (1, 4) else if r = 3 then (2, 4)
      else if r = 4 then (1, 5) else if r = 5 then (1, 6) else (2, 5))"

section \<open>The meld constructor in closed form\<close>

text \<open>
  Names for what the constructor of the source computes, used to unfold \<open>meld\<close>:
  \<open>constructible\<close> holds of the groups it does not throw on (whatever their length),
  \<open>group_type\<close> is the type it stores and \<open>new_meld\<close> the object it builds.
\<close>

definition group_type :: "Card list \<Rightarrow> MeldType" where
  "group_type g = (if fst (isRun g) \<and> isSet g then EITHER else if fst (isRun g) then RUN else SET)"

definition constructible :: "Card list \<Rightarrow> bool" where
  "constructible g = (fst (isRun g) \<or> isSet g)"

definition new_meld :: "string option \<Rightarrow> nat \<times> Card list \<Rightarrow> Meld" where
  "new_meld owner ig =
     \<lparr>meld_id = Some (int (fst ig)), meld_cards = snd ig, meld_type = group_type (snd ig),
      meld_playerID = owner\<rparr>"

section \<open>The cards of a round\<close>

text \<open>
  The deck a round is dealt from, before the shuffle: \<open>new Deck(suits, ranks, values, 2)\<close>
  numbers its cards from 1.
\<close>

definition fresh_deck :: "Card list" where
  "fresh_deck = suits_loop suits ranks 2 1"

text \<open>
  The cards in the hands, in the melds and in the two piles of a room, as multisets,
  and all of them together.
\<close>

fun hands_mset :: "(string \<times> Player) list \<Rightarrow> Card multiset" where
  "hands_mset [] = {#}"
| "hands_mset (kp # ps) = mset (hand (snd kp)) + hands_mset ps"




text \<open>
  \<open>dealt_to n\<close> relates an entry of \<open>players\<close> before and after it has been given \<open>n\<close>
  cards: the same key and the same player, whose hand is the old hand followed by \<open>n\<close>
  more cards.
\<close>

definition dealt_to :: "nat \<Rightarrow> string \<times> Player \<Rightarrow> string \<times> Player \<Rightarrow> bool" where
  "dealt_to n kp kp' =
     (fst kp' = fst kp \<and> snd kp' = (snd kp)\<lparr>hand := hand (snd kp')\<rparr> \<and>
      length (hand (snd kp')) = length (hand (snd kp)) + n \<and>
      take (length (hand (snd kp))) (hand (snd kp')) = hand (snd kp))"


section \<open>Cards and melds used in the examples\<close>

text \<open>Cards with the ids the deck constructor gives them.\<close>

definition ace_clubs :: Card where "ace_clubs = Card_new 1 ''A'' ''Clubs''"
definition two_clubs :: Card where "two_clubs = Card_new 3 ''2'' ''Clubs''"
definition three_clubs :: Card where "three_clubs = Card_new 5 ''3'' ''Clubs''"
definition four_clubs :: Card where "four_clubs = Card_new 7 ''4'' ''Clubs''"
definition five_clubs :: Card where "five_clubs = Card_new 9 ''5'' ''Clubs''"
definition six_clubs :: Card where "six_clubs = Card_new 11 ''6'' ''Clubs''"
definition five_diamonds :: Card where "five_diamonds = Card_new 35 ''5'' ''Diamonds''"
definition five_hearts :: Card where "five_hearts = Card_new 61 ''5'' ''Hearts''"
definition five_spades :: Card where "five_spades = Card_new 87 ''5'' ''Spades''"
definition nine_hearts :: Card where "nine_hearts = Card_new 69 ''9'' ''Hearts''"

definition fives :: Meld where
  "fives = \<lparr>meld_id = Some 0, meld_cards = [five_clubs, five_diamonds, five_hearts],
     meld_type = SET, meld_playerID = Some ''ann''\<rparr>"

definition three_diamonds :: Card where "three_diamonds = Card_new 31 ''3'' ''Diamonds''"
definition three_hearts :: Card where "three_hearts = Card_new 57 ''3'' ''Hearts''"

text \<open>
  A table of one player in round 1 before any meld, and a table of two players, Ann
  holding a single card and owning the meld of three fives, Bob about to act.
\<close>

definition cat :: Player where
  "cat = (Player_new ''cat'' (Some ''s3'') ''Cat'')\<lparr>hand :=
     [five_clubs, five_diamonds, five_hearts, three_clubs, three_diamonds, three_hearts, nine_hearts]\<rparr>"

definition parlour :: MayI where
  "parlour = \<lparr>players = [(''cat'', cat)], connectedPlayerCount = 1,
     game_deck = Some \<lparr>deck = [six_clubs], discarded = [ace_clubs]\<rparr>,
     game_round = 1, turn = 0, turnOrder = [''cat''], game_melds = []\<rparr>"

definition ann :: Player where
  "ann = (Player_new ''ann'' (Some ''s1'') ''Ann'')\<lparr>hand := [five_spades]\<rparr>"

definition bob :: Player where
  "bob = (Player_new ''bob'' (Some ''s2'') ''Bob'')\<lparr>hand := [three_clubs, four_clubs]\<rparr>"

definition table :: MayI where
  "table = \<lparr>players = [(''ann'', ann), (''bob'', bob)], connectedPlayerCount = 2,
     game_deck = Some \<lparr>deck = [six_clubs, nine_hearts], discarded = [ace_clubs]\<rparr>,
     game_round = 1, turn = 1, turnOrder = [''ann'', ''bob''], game_melds = [fives]\<rparr>"

text \<open>
  The table of two after Ann has discarded the 9 of hearts onto the ace, Bob about to
  act; the table of two with a second card in the hand of Ann; and the table of two
  with three threes and a nine in her hand.
\<close>

definition table_threes :: MayI where
  "table_threes =
     table\<lparr>players :=
       [(''ann'', ann\<lparr>hand := [three_clubs, three_diamonds, three_hearts, nine_hearts]\<rparr>), (''bob'', bob)]\<rparr>"


definition table_second_meld :: MayI where
  "table_second_meld =
     table\<lparr>players := [(''ann'', ann\<lparr>hand := [five_spades, nine_hearts]\<rparr>), (''bob'', bob)]\<rparr>"

text \<open>
  A random source that makes every step of the shuffle exchange a card with itself,
  a table of two before the first deal, the same table dealt, then after Ann drew a
  card, or after Ann discarded a queen of clubs she does not hold, and a table of ten.
\<close>

definition unshuffled :: "nat \<Rightarrow> nat" where
  "unshuffled i = i"

definition table_of_ten :: MayI where
  "table_of_ten =
     fold (\<lambda>n st. addPlayer st n None n)
       [''p0'', ''p1'', ''p2'', ''p3'', ''p4'', ''p5'', ''p6'', ''p7'', ''p8'', ''p9''] MayI_new"

definition start2 :: MayI where
  "start2 = addPlayer (addPlayer MayI_new ''ann'' (Some ''s1'') ''Ann'') ''bob'' (Some ''s2'') ''Bob''"






section \<open>Properties of the validator\<close>

lemmas example_cards =
  ace_clubs_def two_clubs_def three_clubs_def four_clubs_def five_clubs_def six_clubs_def
  five_diamonds_def five_hearts_def five_spades_def nine_hearts_def
  Card_new_def values_map_def order_map_def

lemma extract_wild_eq:
  "n \<le> length cs \<Longrightarrow>
   extract_wild n cs w =
     (filter (\<lambda>c. card_order c \<noteq> 2) (take n cs) @ drop n cs,
      w @ rev (filter (\<lambda>c. card_order c = 2) (take n cs)))"
proof (induction n arbitrary: cs w)
  case 0
  then show ?case by simp
next
  case (Suc n)
  then have n: "n < length cs" by simp
  have tk: "take (Suc n) cs = take n cs @ [cs ! n]"
    using n by (simp add: take_Suc_conv_app_nth)
  have dr: "drop n cs = cs ! n # drop (Suc n) cs"
    using n by (simp add: Cons_nth_drop_Suc)
  show ?case
  proof (cases "card_order (cs ! n) = 2")
    case True
    have "n \<le> length (take n cs @ drop (Suc n) cs)" using n by simp
    from Suc.IH [OF this] True n show ?thesis
      by (simp add: tk)
  next
    case False
    have "n \<le> length cs" using n by simp
    from Suc.IH [OF this] False show ?thesis
      by (simp add: tk dr)
  qed
qed

lemma extract_wild_all:
  "extract_wild (length cs) cs [] =
     (filter (\<lambda>c. card_order c \<noteq> 2) cs, rev (filter (\<lambda>c. card_order c = 2) cs))"
  by (simp add: extract_wild_eq)

lemma same_suit_Cons:
  "same_suit (a # cs) \<longleftrightarrow> (\<forall>c\<in>set cs. card_suit c = card_suit a)"
  by (induction cs arbitrary: a) auto

lemma same_suit_iff:
  "same_suit cs \<longleftrightarrow> list_all (\<lambda>c. list_all (\<lambda>d. card_suit c = card_suit d) cs) cs"
  by (cases cs) (auto simp: same_suit_Cons list_all_iff)

lemma run_loop_fill:
  "i \<le> length cards \<Longrightarrow>
   fst (run_loop i val cards wild) = fill val (map card_order (drop i cards)) (length wild)"
proof (induction i val cards wild rule: run_loop.induct)
  case (1 i val cards wild)
  show ?case
  proof (cases "i < length cards")
    case False
    with "1.prems" show ?thesis by (subst run_loop.simps) simp
  next
    case True
    have dr: "drop i cards = cards ! i # drop (Suc i) cards"
      using True by (simp add: Cons_nth_drop_Suc)
    show ?thesis
    proof (cases "card_order (cards ! i) = val")
      case eq: True
      have "fst (run_loop (i + 1) (val + 1) cards wild)
            = fill (val + 1) (map card_order (drop (i + 1) cards)) (length wild)"
        using "1.IH"(2) True eq by simp
      then show ?thesis
        using True eq by (subst run_loop.simps) (simp add: dr)
    next
      case ne: False
      show ?thesis
      proof (cases "wild = []")
        case True
        then show ?thesis using \<open>i < length cards\<close> ne
          by (subst run_loop.simps) (simp add: dr)
      next
        case w: False
        have len: "i + 1 \<le> length (take i cards @ [last wild] @ drop i cards)"
          using True by simp
        have d: "drop (i + 1) (take i cards @ [last wild] @ drop i cards) = drop i cards"
          using True by simp
        have "fst (run_loop (i + 1) (val + 1) (take i cards @ [last wild] @ drop i cards) (butlast wild))
              = fill (val + 1) (map card_order (drop i cards)) (length (butlast wild))"
          using "1.IH"(1) [OF True _ _ len] ne w d by simp
        then show ?thesis
          using True ne w by (subst run_loop.simps) (simp add: dr)
      qed
    qed
  qed
qed

lemma fill_below: "a < val \<Longrightarrow> \<not> fill val (a # os) w"
  by (induction w arbitrary: val) auto

lemma fill_step:
  "fill val (a # os) w \<longleftrightarrow> val \<le> a \<and> a - val \<le> int w \<and> fill (a + 1) os (w - nat (a - val))"
proof (cases "a < val")
  case True
  then show ?thesis using fill_below by auto
next
  case False
  define k where "k = nat (a - val)"
  then show ?thesis using False
  proof (induction k arbitrary: val w)
    case 0
    then have "a = val" by simp
    then show ?case by simp
  next
    case (Suc k)
    then have ne: "a \<noteq> val" and lt: "val + 1 \<le> a" and k: "k = nat (a - (val + 1))" by auto
    show ?case
    proof (cases w)
      case 0
      then show ?thesis using ne lt by simp
    next
      case (Suc w')
      have "fill (val + 1) (a # os) w' \<longleftrightarrow>
            val + 1 \<le> a \<and> a - (val + 1) \<le> int w' \<and> fill (a + 1) os (w' - nat (a - (val + 1)))"
        using Suc.IH [OF k] lt by simp
      moreover have "Suc w' - nat (a - val) = w' - nat (a - (val + 1))"
        using lt by (simp add: nat_diff_distrib')
      ultimately show ?thesis using ne lt Suc by auto
    qed
  qed
qed

lemma gaps_nonneg: "sorted_wrt (<) os \<Longrightarrow> 0 \<le> gaps os"
  by (induction os rule: gaps.induct) auto

lemma fill_spec:
  "fill (a + 1) os w \<longleftrightarrow> sorted_wrt (<) (a # os) \<and> gaps (a # os) \<le> int w"
proof (induction os arbitrary: a w)
  case Nil
  then show ?case by simp
next
  case (Cons b os)
  have "fill (a + 1) (b # os) w \<longleftrightarrow>
        a + 1 \<le> b \<and> b - (a + 1) \<le> int w \<and> fill (b + 1) os (w - nat (b - (a + 1)))"
    by (rule fill_step)
  also have "\<dots> \<longleftrightarrow> a < b \<and> b - a - 1 \<le> int w \<and>
        sorted_wrt (<) (b # os) \<and> gaps (b # os) \<le> int (w - nat (b - (a + 1)))"
    using Cons.IH by auto
  also have "\<dots> \<longleftrightarrow> sorted_wrt (<) (a # b # os) \<and> gaps (a # b # os) \<le> int w"
    using gaps_nonneg [of "b # os"] by auto
  finally show ?case .
qed

lemma map_insort_key: "map f (insort_key f x xs) = insort (f x) (map f xs)"
  by (induction xs) auto

lemma map_sort_key: "map f (sort_key f xs) = sort (map f xs)"
  by (induction xs) (auto simp: map_insort_key)

text \<open>
  The number of missing values is what separates the two ends of a strictly
  ascending sequence beyond its own length.
\<close>

lemma gaps_ends:
  "sorted_wrt (<) (a # os) \<Longrightarrow> gaps (a # os) = last (a # os) - a - int (length os)"
  by (induction os arbitrary: a) auto

text \<open>
  C4. \<open>isRun\<close> returns true exactly when, with the wildcards removed, the remaining
  cards share one suit and, sorted by order, ascend strictly with no more missing
  values between neighbours than there are wildcards; wildcards beyond the gaps are
  accepted.
\<close>

theorem isRun_spec: "fst (isRun cards) = spec_isRun cards"
proof -
  define rest where "rest = filter (\<lambda>c. card_order c \<noteq> 2) (sort_key card_order cards)"
  define wild where "wild = rev (filter (\<lambda>c. card_order c = 2) (sort_key card_order cards))"
  have ex: "extract_wild (length cards) (sort_key card_order cards) [] = (rest, wild)"
    using extract_wild_all [of "sort_key card_order cards"] by (simp add: rest_def wild_def)
  have rest_sort: "rest = sort_key card_order (filter (\<lambda>c. card_order c \<noteq> 2) cards)"
    by (simp add: rest_def filter_sort)
  have os: "map card_order rest = sort (map card_order (filter (\<lambda>c. card_order c \<noteq> 2) cards))"
    by (simp add: rest_sort map_sort_key)
  have wl: "length wild = length (filter (\<lambda>c. card_order c = 2) cards)"
    by (simp add: wild_def filter_sort)
  have suit: "same_suit rest \<longleftrightarrow>
     list_all (\<lambda>c. list_all (\<lambda>d. card_suit c = card_suit d) (filter (\<lambda>c. card_order c \<noteq> 2) cards))
       (filter (\<lambda>c. card_order c \<noteq> 2) cards)"
    by (simp add: same_suit_iff rest_sort list_all_iff)
  have loop: "fst (run_loop 1 (if rest \<noteq> [] then card_order (rest ! 0) + 1 else 0) rest wild)
      \<longleftrightarrow> sorted_wrt (<) (map card_order rest) \<and> gaps (map card_order rest) \<le> int (length wild)"
  proof (cases rest)
    case Nil
    then show ?thesis by (subst run_loop.simps) simp
  next
    case (Cons c cs)
    then have "fst (run_loop 1 (card_order c + 1) rest wild)
        = fill (card_order c + 1) (map card_order cs) (length wild)"
      using run_loop_fill [of 1 rest "card_order c + 1" wild] by simp
    then show ?thesis using Cons by (simp add: fill_spec)
  qed
  define v where "v = (if rest \<noteq> [] then card_order (rest ! 0) + 1 else 0)"
  obtain b cs' ws' where r: "run_loop (Suc 0) v rest wild = (b, cs', ws')"
    by (metis prod_cases3)
  have "isRun cards =
      (if \<not> same_suit rest then (False, rest)
       else (case run_loop 1 v rest wild of
               (False, cards', wildCards') \<Rightarrow> (False, cards')
             | (True, cards', wildCards') \<Rightarrow> (True, cards' @ wildCards')))"
    by (simp add: isRun_def ex v_def)
  then have "fst (isRun cards) \<longleftrightarrow> same_suit rest \<and> b"
    by (cases b) (simp_all add: r)
  also have "\<dots> \<longleftrightarrow> spec_isRun cards"
    using loop suit r by (simp add: v_def [symmetric] spec_isRun_def Let_def os wl)
  finally show ?thesis .
qed

lemma mset_take_drop: "mset (take i cs) + mset (drop i cs) = mset cs"
  by (metis append_take_drop_id mset_append)

lemma filter_take_drop: "filter P (take i cs) @ filter P (drop i cs) = filter P cs"
  by (metis append_take_drop_id filter_append)

lemma run_loop_mset:
  "run_loop i val cards wild = (b, cards', wild') \<Longrightarrow>
   mset cards' + mset wild' = mset cards + mset wild"
proof (induction i val cards wild rule: run_loop.induct)
  case (1 i val cards wild)
  show ?case
  proof (cases "i < length cards")
    case False
    with "1.prems" show ?thesis by (subst (asm) run_loop.simps) simp
  next
    case True
    show ?thesis
    proof (cases "card_order (cards ! i) = val")
      case eq: True
      with "1.prems" True have "run_loop (i + 1) (val + 1) cards wild = (b, cards', wild')"
        by (subst (asm) run_loop.simps) simp
      with "1.IH"(2) True eq show ?thesis by simp
    next
      case ne: False
      show ?thesis
      proof (cases "wild = []")
        case True
        with "1.prems" \<open>i < length cards\<close> ne show ?thesis
          by (subst (asm) run_loop.simps) simp
      next
        case w: False
        with "1.prems" True ne
        have r: "run_loop (i + 1) (val + 1) (take i cards @ [last wild] @ drop i cards) (butlast wild)
                 = (b, cards', wild')"
          by (subst (asm) run_loop.simps) simp
        have "mset cards' + mset wild'
              = mset (take i cards @ [last wild] @ drop i cards) + mset (butlast wild)"
          using "1.IH"(1) [OF True _ _ r] ne w by simp
        also have "\<dots> = mset (take i cards) + mset (drop i cards) + mset (butlast wild @ [last wild])"
          by simp
        also have "\<dots> = mset cards + mset wild"
          using w by (simp only: mset_take_drop append_butlast_last_id [OF w])
        finally show ?thesis .
      qed
    qed
  qed
qed

lemma run_loop_filter:
  "run_loop i val cards wild = (b, cards', wild') \<Longrightarrow>
   list_all (\<lambda>c. card_order c = 2) wild \<Longrightarrow>
   filter (\<lambda>c. card_order c \<noteq> 2) cards' = filter (\<lambda>c. card_order c \<noteq> 2) cards"
proof (induction i val cards wild rule: run_loop.induct)
  case (1 i val cards wild)
  show ?case
  proof (cases "i < length cards")
    case False
    with "1.prems" show ?thesis by (subst (asm) run_loop.simps) simp
  next
    case True
    show ?thesis
    proof (cases "card_order (cards ! i) = val")
      case eq: True
      with "1.prems" True have "run_loop (i + 1) (val + 1) cards wild = (b, cards', wild')"
        by (subst (asm) run_loop.simps) simp
      with "1.IH"(2) True eq "1.prems"(2) show ?thesis by simp
    next
      case ne: False
      show ?thesis
      proof (cases "wild = []")
        case True
        with "1.prems" \<open>i < length cards\<close> ne show ?thesis
          by (subst (asm) run_loop.simps) simp
      next
        case w: False
        with "1.prems" True ne
        have r: "run_loop (i + 1) (val + 1) (take i cards @ [last wild] @ drop i cards) (butlast wild)
                 = (b, cards', wild')"
          by (subst (asm) run_loop.simps) simp
        have lw: "card_order (last wild) = 2"
          using "1.prems"(2) w by (simp add: list_all_iff)
        have bw: "list_all (\<lambda>c. card_order c = 2) (butlast wild)"
          using "1.prems"(2) by (auto simp: list_all_iff dest: in_set_butlastD)
        have "filter (\<lambda>c. card_order c \<noteq> 2) cards'
              = filter (\<lambda>c. card_order c \<noteq> 2) (take i cards @ [last wild] @ drop i cards)"
          using "1.IH"(1) [OF True _ _ r bw] ne w by simp
        also have "\<dots> = filter (\<lambda>c. card_order c \<noteq> 2) (take i cards)
                          @ filter (\<lambda>c. card_order c \<noteq> 2) (drop i cards)"
          using lw by simp
        finally show ?thesis by (simp only: filter_take_drop)
      qed
    qed
  qed
qed

lemma isRun_array:
  "mset (snd (isRun cards)) \<subseteq># mset cards \<and>
   (fst (isRun cards) \<longrightarrow> mset (snd (isRun cards)) = mset cards) \<and>
   filter (\<lambda>c. card_order c \<noteq> 2) (snd (isRun cards))
     = sort_key card_order (filter (\<lambda>c. card_order c \<noteq> 2) cards)"
proof -
  define rest where "rest = filter (\<lambda>c. card_order c \<noteq> 2) (sort_key card_order cards)"
  define wild where "wild = rev (filter (\<lambda>c. card_order c = 2) (sort_key card_order cards))"
  define v where "v = (if rest \<noteq> [] then card_order (rest ! 0) + 1 else 0)"
  have ex: "extract_wild (length cards) (sort_key card_order cards) [] = (rest, wild)"
    using extract_wild_all [of "sort_key card_order cards"] by (simp add: rest_def wild_def)
  have rest_sort: "rest = sort_key card_order (filter (\<lambda>c. card_order c \<noteq> 2) cards)"
    by (simp add: rest_def filter_sort)
  have part: "mset rest + mset wild = mset cards"
    by (simp add: rest_def wild_def)
  have aw: "list_all (\<lambda>c. card_order c = 2) wild"
    by (simp add: wild_def list_all_iff)
  have fr: "filter (\<lambda>c. card_order c \<noteq> 2) rest = rest"
    by (simp add: rest_def)
  obtain b cs' ws' where r: "run_loop (Suc 0) v rest wild = (b, cs', ws')"
    by (metis prod_cases3)
  have m: "mset cs' + mset ws' = mset cards"
    using run_loop_mset [OF r] part by simp
  have f: "filter (\<lambda>c. card_order c \<noteq> 2) cs' = rest"
    using run_loop_filter [OF r aw] fr by simp
  have aw': "filter (\<lambda>c. card_order c \<noteq> 2) ws' = []"
  proof -
    have "mset (filter (\<lambda>c. card_order c \<noteq> 2) cs') + mset (filter (\<lambda>c. card_order c \<noteq> 2) ws')
          = mset (filter (\<lambda>c. card_order c \<noteq> 2) cards)"
      using arg_cong [OF m, of "filter_mset (\<lambda>c. card_order c \<noteq> 2)"] by simp
    moreover have "mset (filter (\<lambda>c. card_order c \<noteq> 2) cs') = mset (filter (\<lambda>c. card_order c \<noteq> 2) cards)"
      by (simp add: f rest_sort)
    ultimately show ?thesis by simp
  qed
  have eq: "isRun cards =
      (if \<not> same_suit rest then (False, rest)
       else (case run_loop 1 v rest wild of
               (False, cards', wildCards') \<Rightarrow> (False, cards')
             | (True, cards', wildCards') \<Rightarrow> (True, cards' @ wildCards')))"
    by (simp add: isRun_def ex v_def)
  have sub1: "mset rest \<subseteq># mset cards" using part by (metis mset_subset_eq_add_left)
  have sub2: "mset cs' \<subseteq># mset cards" using m by (metis mset_subset_eq_add_left)
  show ?thesis
  proof (cases "same_suit rest")
    case False
    then show ?thesis using eq sub1 fr rest_sort by simp
  next
    case True
    show ?thesis
    proof (cases b)
      case True
      then show ?thesis using eq \<open>same_suit rest\<close> r m f aw' rest_sort by simp
    next
      case False
      then show ?thesis using eq \<open>same_suit rest\<close> r sub2 f rest_sort by simp
    qed
  qed
qed

text \<open>
  C5, as amended. \<open>isSet\<close> only reads the group. \<open>isRun\<close> rearranges the array it is
  called on: afterwards that array holds no card that was not in the group, holds
  exactly the cards of the group when the verdict is true, and has its
  non-wildcards sorted by order. The \<open>Meld\<close> constructor runs both checks on copies:
  a meld that is constructed stores the group exactly as it was given.
\<close>

theorem validator_effect_on_group:
  "mset (snd (isRun cards)) \<subseteq># mset cards \<and>
   (fst (isRun cards) \<longrightarrow> mset (snd (isRun cards)) = mset cards) \<and>
   filter (\<lambda>c. card_order c \<noteq> 2) (snd (isRun cards))
     = sort_key card_order (filter (\<lambda>c. card_order c \<noteq> 2) cards) \<and>
   (Meld_new i cards owner = Inr m \<longrightarrow> meld_cards m = cards)"
  using isRun_array [of cards] by (auto simp: Meld_new_def Let_def split: if_splits)

lemma isRun_example: "isRun [five_clubs, three_clubs, four_clubs] = (True, [three_clubs, four_clubs, five_clubs])"
  by (simp add: isRun_def example_cards run_loop.simps)

lemma isSet_example: "\<not> isSet [five_clubs, three_clubs, four_clubs]"
  by (simp add: isSet_def example_cards)

theorem validator_effect_on_group_witness:
  "fst (isRun [five_clubs, three_clubs, four_clubs]) \<and>
   mset (snd (isRun [five_clubs, three_clubs, four_clubs])) = mset [five_clubs, three_clubs, four_clubs] \<and>
   Meld_new (Some 0) [five_clubs, three_clubs, four_clubs] None =
     Inr \<lparr>meld_id = Some 0, meld_cards = [five_clubs, three_clubs, four_clubs], meld_type = RUN,
          meld_playerID = None\<rparr>"
proof -
  have m: "Meld_new (Some 0) [five_clubs, three_clubs, four_clubs] None =
     Inr \<lparr>meld_id = Some 0, meld_cards = [five_clubs, three_clubs, four_clubs], meld_type = RUN,
          meld_playerID = None\<rparr>"
    by (simp add: Meld_new_def isRun_example isSet_example)
  have r: "fst (isRun [five_clubs, three_clubs, four_clubs])"
    by (simp add: isRun_example)
  show ?thesis
    using validator_effect_on_group [of "[five_clubs, three_clubs, four_clubs]" "Some 0" None
      "\<lparr>meld_id = Some 0, meld_cards = [five_clubs, three_clubs, four_clubs], meld_type = RUN,
          meld_playerID = None\<rparr>"] m r
    by simp
qed

text \<open>
  C5 as stated fails: \<open>isRun\<close> leaves the array 5, 3, 4 of clubs in the order 3, 4, 5,
  and leaves the array 2 of clubs, 3 of clubs, 5 of hearts without its wildcard.
\<close>

theorem isRun_changes_its_argument:
  "isRun [five_clubs, three_clubs, four_clubs] = (True, [three_clubs, four_clubs, five_clubs]) \<and>
   [three_clubs, four_clubs, five_clubs] \<noteq> [five_clubs, three_clubs, four_clubs] \<and>
   isRun [two_clubs, three_clubs, five_hearts] = (False, [three_clubs, five_hearts]) \<and>
   two_clubs \<notin> set [three_clubs, five_hearts]"
  by (simp add: isRun_def example_cards run_loop.simps)

text \<open>
  C7, as amended. \<open>swap\<close> accepts exactly when the group made of playerCard and the
  cards of the meld whose id differs from meldCard's passes validation (\<open>isRun\<close> or
  \<open>isSet\<close>), whether or not meldCard is a wildcard; then the first card with the id of
  meldCard is replaced and the cards are sorted. When the swap is rejected the meld
  is unchanged.
\<close>

theorem swap_accepts_iff_valid:
  "swap m (Some meldCard) playerCard =
     Inr (let probe = playerCard # filter (\<lambda>c. card_id c \<noteq> card_id meldCard) (meld_cards m)
          in if fst (isRun probe) \<or> isSet probe
             then (True, m\<lparr>meld_cards :=
                     sort_key card_order (replace_first (card_id meldCard) playerCard (meld_cards m))\<rparr>)
             else (False, m))"
  by (simp add: swap_def Meld_new_def Let_def)

text \<open>
  C7 as stated fails: the 5 of clubs of a meld of three fives is no wildcard, and
  swapping the 5 of spades for it is accepted.
\<close>

theorem swap_non_wildcard_accepted:
  "card_order five_clubs \<noteq> 2 \<and>
   swap fives (Some five_clubs) five_spades =
     Inr (True, fives\<lparr>meld_cards := [five_spades, five_diamonds, five_hearts]\<rparr>)"
  by (simp add: swap_def Meld_new_def fives_def isRun_def isSet_def example_cards run_loop.simps)

section \<open>Properties of the game operations\<close>



lemma table_simps:
  "game_deck table = Some \<lparr>deck = [six_clubs, nine_hearts], discarded = [ace_clubs]\<rparr>"
  "players table = [(''ann'', ann), (''bob'', bob)]"
  "turn table = 1" "turnOrder table = [''ann'', ''bob'']" "game_melds table = [fives]"
  "game_round table = 1"
  by (simp_all add: table_def)

lemma update_same: "map_of ps k = Some v \<Longrightarrow> AList.update k v ps = ps"
  by (induction ps) auto

lemma remove_loop_absent:
  "list_all (\<lambda>x. card_id x \<noteq> k) h \<Longrightarrow> remove_loop k h = h"
  by (induction k h rule: remove_loop.induct) auto

lemma length_update_known:
  "map_of ps k = Some v \<Longrightarrow> length (AList.update k v' ps) = length ps"
  by (induction ps) auto

text \<open>
  C10. Called for the player at \<open>turnOrder[turn]\<close> (a player of the game, the deck
  dealt), \<open>discard\<close> returns true, appends the card to the discard pile and advances
  the turn, whatever the card; when no card of the hand has its id, nothing else
  changes: the hand is as it was.
\<close>

theorem discard_unchecked:
  assumes "turn st < length (turnOrder st)" and "turnOrder st ! turn st = p"
    and "map_of (players st) p = Some pl" and "game_deck st = Some d"
  shows "discard st p c =
     Inr (Some True,
       st\<lparr>players := AList.update p (pl\<lparr>hand := remove_loop (card_id c) (hand pl)\<rparr>) (players st),
          game_deck := Some (d\<lparr>discarded := discarded d @ [c]\<rparr>),
          turn := (if int (turn st) = int (length (players st)) - 1 then 0 else turn st + 1)\<rparr>) \<and>
     (list_all (\<lambda>x. card_id x \<noteq> card_id c) (hand pl) \<longrightarrow>
      discard st p c =
        Inr (Some True,
          st\<lparr>game_deck := Some (d\<lparr>discarded := discarded d @ [c]\<rparr>),
             turn := (if int (turn st) = int (length (players st)) - 1 then 0 else turn st + 1)\<rparr>))"
proof -
  have first: "discard st p c =
     Inr (Some True,
       st\<lparr>players := AList.update p (pl\<lparr>hand := remove_loop (card_id c) (hand pl)\<rparr>) (players st),
          game_deck := Some (d\<lparr>discarded := discarded d @ [c]\<rparr>),
          turn := (if int (turn st) = int (length (players st)) - 1 then 0 else turn st + 1)\<rparr>)"
    using assms
    by (simp add: discard_def incrementTurn_def discardCard_def Let_def length_update_known)
  moreover have "AList.update p (pl\<lparr>hand := remove_loop (card_id c) (hand pl)\<rparr>) (players st) = players st"
    if "list_all (\<lambda>x. card_id x \<noteq> card_id c) (hand pl)"
    using that assms(3) by (simp add: remove_loop_absent update_same)
  ultimately show ?thesis by simp
qed

theorem discard_unchecked_witness:
  "discard table ''bob'' five_hearts =
     Inr (Some True,
       table\<lparr>game_deck := Some \<lparr>deck = [six_clubs, nine_hearts], discarded = [ace_clubs, five_hearts]\<rparr>,
             turn := 0\<rparr>)"
  using discard_unchecked [of table "''bob''" bob
      "\<lparr>deck = [six_clubs, nine_hearts], discarded = [ace_clubs]\<rparr>" five_hearts]
  by (simp add: table_simps bob_def Player_new_def example_cards)

text \<open>
  C3. Two rejections that do not leave the room as it was: \<open>addToMeld\<close> for Ann, who
  holds one card, returns false after the card has been put into the meld, and
  \<open>swapWithMeld\<close> on a meld without a wildcard ends in a TypeError.
\<close>

theorem rejections_that_mutate_or_fault:
  "length (hand ann) = 1 \<and>
   addToMeld table ''ann'' five_spades 0 =
     Inr (False,
       table\<lparr>game_melds := [fives\<lparr>meld_cards := [five_clubs, five_diamonds, five_hearts, five_spades]\<rparr>]\<rparr>) \<and>
   find (\<lambda>c. card_order c = 2) (meld_cards fives) = None \<and>
   swapWithMeld table ''ann'' five_spades 0 = Inl TypeError"
  by (simp add: addToMeld_def swapWithMeld_def hasMeld_def addCard_def swap_def Meld_new_def
      isSet_def isRun_def run_loop.simps Let_def table_simps fives_def ann_def Player_new_def
      example_cards)

text \<open>
  C6. The \<open>Meld\<close> constructor accepts groups of fewer than three cards: the empty
  group, a single card and a pair of fives are all constructed. Through the game:
  Ann, who owns a meld and holds two cards, melds the single 9 of hearts.
\<close>

theorem Meld_new_accepts_short_groups:
  "Meld_new (Some 0) [] None =
     Inr \<lparr>meld_id = Some 0, meld_cards = [], meld_type = EITHER, meld_playerID = None\<rparr> \<and>
   Meld_new (Some 0) [ace_clubs] None =
     Inr \<lparr>meld_id = Some 0, meld_cards = [ace_clubs], meld_type = EITHER, meld_playerID = None\<rparr> \<and>
   Meld_new (Some 0) [five_clubs, five_hearts] None =
     Inr \<lparr>meld_id = Some 0, meld_cards = [five_clubs, five_hearts], meld_type = SET, meld_playerID = None\<rparr> \<and>
   meld (table\<lparr>players := [(''ann'', ann\<lparr>hand := [five_spades, nine_hearts]\<rparr>), (''bob'', bob)]\<rparr>)
      ''ann'' [[nine_hearts]] =
     (True,
      table\<lparr>players := [(''ann'', ann\<lparr>hand := [five_spades]\<rparr>), (''bob'', bob)],
            game_melds := [fives, \<lparr>meld_id = Some 1, meld_cards = [nine_hearts], meld_type = EITHER,
                                   meld_playerID = Some ''ann''\<rparr>]\<rparr>)"
  by (simp add: meld_def Meld_new_def hasMeld_def isRun_def isSet_def run_loop.simps Let_def
      table_simps fives_def ann_def Player_new_def example_cards)

lemma Meld_new_eq:
  "Meld_new i g owner =
     (if constructible g
      then Inr \<lparr>meld_id = i, meld_cards = g, meld_type = group_type g, meld_playerID = owner\<rparr>
      else Inl InvalidMeld)"
  by (auto simp: Meld_new_def constructible_def group_type_def Let_def)

lemma build_melds_eq:
  "build_melds n owner gs =
     (if list_all constructible gs then Inr (map (new_meld owner) (enumerate n gs)) else Inl InvalidMeld)"
  by (induction gs arbitrary: n) (auto simp: Meld_new_eq new_meld_def)

lemma melds_table:
  assumes "1 \<le> r" and "r \<le> 6"
  shows "rm_sets (melds ! nat (r - 1)) = fst (claimed_shape r)"
    and "rm_length (melds ! nat (r - 1)) = snd (claimed_shape r)"
proof -
  from assms have "r = 1 \<or> r = 2 \<or> r = 3 \<or> r = 4 \<or> r = 5 \<or> r = 6" by arith
  then show "rm_sets (melds ! nat (r - 1)) = fst (claimed_shape r)"
    and "rm_length (melds ! nat (r - 1)) = snd (claimed_shape r)"
    by (auto simp: melds_def claimed_shape_def)
qed

lemma round_check_eq:
  assumes "1 \<le> r" and "r \<le> 6"
  shows "round_check r (map (new_meld owner) (enumerate n gs)) \<longleftrightarrow>
     length gs = fst (claimed_shape r) \<and>
     list_all (\<lambda>g. snd (claimed_shape r) \<le> length g \<and> group_type g \<noteq> RUN) gs"
proof -
  have len: "int (length melds) = 6" by (simp add: melds_def)
  have "list_all (\<lambda>m. \<not> (length (meld_cards m) < k \<or> meld_type m = RUN)) (map (new_meld owner) (enumerate n gs))
        \<longleftrightarrow> list_all (\<lambda>g. k \<le> length g \<and> group_type g \<noteq> RUN) gs" for k
    by (induction gs arbitrary: n) (auto simp: new_meld_def)
  then show ?thesis
    using assms by (auto simp: round_check_def Let_def len melds_table)
qed

lemma remove_loop_distinct:
  "distinct (map card_id h) \<Longrightarrow> remove_loop k h = filter (\<lambda>x. card_id x \<noteq> k) h"
proof (induction k h rule: remove_loop.induct)
  case (3 k c d cs)
  show ?case
  proof (cases "card_id c = k")
    case True
    with "3.prems" have "list_all (\<lambda>x. card_id x \<noteq> k) (d # cs)"
      by (force simp: list_all_iff image_iff)
    then have "filter (\<lambda>x. card_id x \<noteq> k) (d # cs) = d # cs" "remove_loop k cs = cs"
      by (auto simp: list_all_iff remove_loop_absent)
    with True show ?thesis by simp
  next
    case False
    with 3 show ?thesis by simp
  qed
qed simp_all

lemma remove_loop_member:
  assumes "distinct (map card_id h)" and "c \<in> set h"
  shows "mset (remove_loop (card_id c) h) = mset h - {#c#}"
    and "distinct (map card_id (remove_loop (card_id c) h))"
proof -
  have eq: "filter (\<lambda>x. card_id x \<noteq> card_id c) h = remove1 c h"
    using assms
  proof (induction h)
    case Nil
    then show ?case by simp
  next
    case (Cons a h)
    show ?case
    proof (cases "a = c")
      case True
      with Cons.prems have "\<forall>x\<in>set h. card_id x \<noteq> card_id c" by (force simp: image_iff)
      then have "filter (\<lambda>x. card_id x \<noteq> card_id c) h = h" by (simp add: filter_id_conv)
      with True show ?thesis by simp
    next
      case False
      with Cons.prems have "card_id a \<noteq> card_id c" by auto
      with Cons False show ?thesis by auto
    qed
  qed
  show "mset (remove_loop (card_id c) h) = mset h - {#c#}"
    using assms by (simp add: remove_loop_distinct eq)
  show "distinct (map card_id (remove_loop (card_id c) h))"
    using assms by (simp add: remove_loop_distinct distinct_map_filter)
qed

lemma fold_remove_mset:
  "distinct (map card_id h) \<Longrightarrow> mset xs \<subseteq># mset h \<Longrightarrow>
   mset (fold (\<lambda>c h. remove_loop (card_id c) h) xs h) = mset h - mset xs \<and>
   distinct (map card_id (fold (\<lambda>c h. remove_loop (card_id c) h) xs h))"
proof (induction xs arbitrary: h)
  case Nil
  then show ?case by simp
next
  case (Cons c xs)
  from Cons.prems(2) have c: "c \<in> set h"
    by (metis insert_subset_eq_iff mset.simps(2) in_multiset_in_set)
  have sub: "mset xs \<subseteq># mset (remove_loop (card_id c) h)"
    using Cons.prems c by (simp add: remove_loop_member(1) insert_subset_eq_iff)
  from Cons.IH [OF remove_loop_member(2) [OF Cons.prems(1) c] sub]
  show ?case
    using Cons.prems(1) c by (simp add: remove_loop_member(1))
qed

text \<open>
  \<open>meld\<close> in closed form, for a player of the game in a round from 1 to 6: it
  succeeds exactly when the constructor accepts every group, the groups together do
  not have as many cards as the hand, and, unless a meld of the list is owned by
  the player, the groups are as many as the round's entry of the table says, each
  at least as long as it says and none of type RUN. On rejection the state is
  unchanged; on success the cards are taken out of the hand by the removal loop and
  the new melds are appended, and for groups drawn from a hand of distinct ids the
  hand loses exactly the cards of the groups.
\<close>

lemma meld_closed_form:
  assumes "map_of (players st) player = Some p"
    and "1 \<le> game_round st" and "game_round st \<le> 6"
  shows "(fst (meld st player groups) \<longleftrightarrow>
      list_all constructible groups \<and>
      length (concat groups) \<noteq> length (hand p) \<and>
      (hasMeld st player \<or>
       length groups = fst (claimed_shape (game_round st)) \<and>
       list_all (\<lambda>g. snd (claimed_shape (game_round st)) \<le> length g \<and> group_type g \<noteq> RUN) groups)) \<and>
    (\<not> fst (meld st player groups) \<longrightarrow> snd (meld st player groups) = st) \<and>
    (fst (meld st player groups) \<longrightarrow>
      snd (meld st player groups) =
        st\<lparr>players :=
             AList.update player
               (p\<lparr>hand := fold (\<lambda>c h. remove_loop (card_id c) h) (concat groups) (hand p)\<rparr>)
               (players st),
           game_melds :=
             game_melds st @
             map (new_meld (Some (player_id p))) (enumerate (length (game_melds st)) groups)\<rparr>) \<and>
    (distinct (map card_id (hand p)) \<and> mset (concat groups) \<subseteq># mset (hand p) \<longrightarrow>
      mset (fold (\<lambda>c h. remove_loop (card_id c) h) (concat groups) (hand p))
        = mset (hand p) - mset (concat groups))"
proof -
  have len: "sum_list (map length groups) = length (concat groups)"
    by (simp add: length_concat)
  have m: "meld st player groups =
     (if list_all constructible groups \<and> length (concat groups) \<noteq> length (hand p) \<and>
         (hasMeld st player \<or>
          round_check (game_round st)
            (map (new_meld (Some (player_id p))) (enumerate (length (game_melds st)) groups)))
      then (True,
        st\<lparr>players :=
             AList.update player
               (p\<lparr>hand := fold (\<lambda>c h. remove_loop (card_id c) h) (concat groups) (hand p)\<rparr>)
               (players st),
           game_melds :=
             game_melds st @
             map (new_meld (Some (player_id p))) (enumerate (length (game_melds st)) groups)\<rparr>)
      else (False, st))"
    using assms(1) by (simp add: meld_def build_melds_eq len)
  have a: "fst (meld st player groups) \<longleftrightarrow>
      list_all constructible groups \<and>
      length (concat groups) \<noteq> length (hand p) \<and>
      (hasMeld st player \<or>
       length groups = fst (claimed_shape (game_round st)) \<and>
       list_all (\<lambda>g. snd (claimed_shape (game_round st)) \<le> length g \<and> group_type g \<noteq> RUN) groups)"
    using round_check_eq [OF assms(2,3)] by (simp add: m)
  have b: "\<not> fst (meld st player groups) \<longrightarrow> snd (meld st player groups) = st"
    by (simp add: m)
  have c: "fst (meld st player groups) \<longrightarrow>
      snd (meld st player groups) =
        st\<lparr>players :=
             AList.update player
               (p\<lparr>hand := fold (\<lambda>c h. remove_loop (card_id c) h) (concat groups) (hand p)\<rparr>)
               (players st),
           game_melds :=
             game_melds st @
             map (new_meld (Some (player_id p))) (enumerate (length (game_melds st)) groups)\<rparr>"
    by (simp add: m)
  have d: "distinct (map card_id (hand p)) \<and> mset (concat groups) \<subseteq># mset (hand p) \<longrightarrow>
      mset (fold (\<lambda>c h. remove_loop (card_id c) h) (concat groups) (hand p))
        = mset (hand p) - mset (concat groups)"
    using fold_remove_mset by blast
  from a b c d show ?thesis by blast
qed

lemma parlour_simps:
  "players parlour = [(''cat'', cat)]" "game_round parlour = 1" "game_melds parlour = []"
  by (simp_all add: parlour_def)

lemma fives_valid:
  "constructible [five_clubs, five_diamonds, five_hearts]"
  "group_type [five_clubs, five_diamonds, five_hearts] = SET"
  "constructible [three_clubs, three_diamonds, three_hearts]"
  "group_type [three_clubs, three_diamonds, three_hearts] = SET"
  by (simp_all add: constructible_def group_type_def isSet_def isRun_def run_loop.simps example_cards
      three_diamonds_def three_hearts_def)

lemma cat_simps:
  "hand cat = [five_clubs, five_diamonds, five_hearts, three_clubs, three_diamonds, three_hearts, nine_hearts]"
  "player_id cat = ''cat''"
  by (simp_all add: cat_def Player_new_def)

lemma cat_remove:
  "fold (\<lambda>c h. remove_loop (card_id c) h)
       (concat [[five_clubs, five_diamonds, five_hearts], [three_clubs, three_diamonds, three_hearts]])
       (hand cat)
     = [nine_hearts]"
  by (simp add: cat_simps example_cards three_diamonds_def three_hearts_def)

lemma meld_example:
  "fst (meld parlour ''cat'' [[five_clubs, five_diamonds, five_hearts], [three_clubs, three_diamonds, three_hearts]]) \<and>
   snd (meld parlour ''cat'' [[five_clubs, five_diamonds, five_hearts], [three_clubs, three_diamonds, three_hearts]]) =
     parlour\<lparr>players := [(''cat'', cat\<lparr>hand := [nine_hearts]\<rparr>)],
       game_melds :=
         [\<lparr>meld_id = Some 0, meld_cards = [five_clubs, five_diamonds, five_hearts], meld_type = SET,
           meld_playerID = Some ''cat''\<rparr>,
          \<lparr>meld_id = Some 1, meld_cards = [three_clubs, three_diamonds, three_hearts], meld_type = SET,
           meld_playerID = Some ''cat''\<rparr>]\<rparr> \<and>
   \<not> fst (meld parlour ''cat'' [[five_clubs, five_diamonds, five_hearts]]) \<and>
   snd (meld parlour ''cat'' [[five_clubs, five_diamonds, five_hearts]]) = parlour"
proof -
  let ?two = "[[five_clubs, five_diamonds, five_hearts], [three_clubs, three_diamonds, three_hearts]]"
  let ?one = "[[five_clubs, five_diamonds, five_hearts]]"
  have p: "map_of (players parlour) ''cat'' = Some cat"
    by (simp add: parlour_simps)
  have r: "1 \<le> game_round parlour" "game_round parlour \<le> 6"
    by (simp_all add: parlour_simps)
  have nm: "\<not> hasMeld parlour ''cat''"
    by (simp add: hasMeld_def parlour_simps)
  have sh: "claimed_shape (game_round parlour) = (2, 3)"
    by (simp add: claimed_shape_def parlour_simps)
  note two = meld_closed_form [OF p r, of ?two]
  note one = meld_closed_form [OF p r, of ?one]
  have ok: "fst (meld parlour ''cat'' ?two)"
    unfolding two [THEN conjunct1] by (simp add: sh fives_valid cat_simps)
  have no: "\<not> fst (meld parlour ''cat'' ?one)"
    unfolding one [THEN conjunct1] by (simp add: sh nm)
  have st2: "snd (meld parlour ''cat'' ?two) =
     parlour\<lparr>players := AList.update ''cat''
         (cat\<lparr>hand := fold (\<lambda>c h. remove_loop (card_id c) h) (concat ?two) (hand cat)\<rparr>) (players parlour),
       game_melds := game_melds parlour @
         map (new_meld (Some (player_id cat))) (enumerate (length (game_melds parlour)) ?two)\<rparr>"
    using two [THEN conjunct2, THEN conjunct2, THEN conjunct1] ok by (rule mp)
  have st1: "snd (meld parlour ''cat'' ?one) = parlour"
    using one [THEN conjunct2, THEN conjunct1] no by (rule mp)
  have ms: "map (new_meld (Some (player_id cat))) (enumerate (length (game_melds parlour)) ?two) =
         [\<lparr>meld_id = Some 0, meld_cards = [five_clubs, five_diamonds, five_hearts], meld_type = SET,
           meld_playerID = Some ''cat''\<rparr>,
          \<lparr>meld_id = Some 1, meld_cards = [three_clubs, three_diamonds, three_hearts], meld_type = SET,
           meld_playerID = Some ''cat''\<rparr>]"
    by (simp add: parlour_simps new_meld_def fives_valid cat_simps)
  have up: "AList.update ''cat'' v (players parlour) = [(''cat'', v)]" for v
    by (simp add: parlour_simps)
  show ?thesis
    unfolding st1 st2 cat_remove ms up using ok no by (simp add: parlour_simps)
qed

text \<open>
  The two checks against the words of the specification. \<open>isSet\<close> is \<open>spec_isSet\<close>
  on cards whose order is not 0 (the orders of the deck are 1 to 13; the test \<open>!val\<close>
  of the source would take a card of order 0 for no card seen yet). With \<open>isRun\<close>
  equal to \<open>spec_isRun\<close>, the constructor accepts a group of three or more such cards
  exactly when it is a valid meld of the specification, and gives it the type the
  specification gives it.
\<close>

lemma isSet_loop_val:
  "val \<noteq> 0 \<Longrightarrow>
   isSet_loop val cards = list_all (\<lambda>c. card_order c = 2 \<or> card_order c = val) cards"
  by (induction cards) auto

lemma isSet_spec:
  assumes "list_all (\<lambda>c. card_order c \<noteq> 0) cards"
  shows "isSet cards = spec_isSet cards"
  unfolding isSet_def using assms
proof (induction cards)
  case Nil
  then show ?case by (simp add: spec_isSet_def)
next
  case (Cons c cards)
  show ?case
  proof (cases "card_order c = 2")
    case True
    with Cons show ?thesis by (simp add: spec_isSet_def)
  next
    case False
    from Cons.prems have nz: "card_order c \<noteq> 0" by simp
    have "isSet_loop 0 (c # cards) =
        list_all (\<lambda>d. card_order d = 2 \<or> card_order d = card_order c) cards"
      using False nz by (simp add: isSet_loop_val)
    also have "\<dots> = spec_isSet (c # cards)"
      using False by (simp add: spec_isSet_def list_all_iff) metis
    finally show ?thesis .
  qed
qed

lemma constructible_spec:
  assumes "3 \<le> length g" and "list_all (\<lambda>c. card_order c \<noteq> 0) g"
  shows "constructible g = spec_valid_meld g" and "group_type g = spec_type g"
  using assms
  by (auto simp: constructible_def spec_valid_meld_def group_type_def spec_type_def isRun_spec
      isSet_spec)

text \<open>
  \<open>meld\<close> against the words of the specification, for groups of three or more cards
  each: it succeeds exactly when every group is a valid meld, the groups together do
  not have as many cards as the hand, and, unless some meld of the list is owned by
  the player, the groups have the shape the round requires and none is of type RUN.
\<close>

lemma meld_accepts_spec:
  assumes "map_of (players st) player = Some p"
    and "1 \<le> game_round st" and "game_round st \<le> 6"
    and "list_all (\<lambda>g. 3 \<le> length g \<and> list_all (\<lambda>c. card_order c \<noteq> 0) g) groups"
  shows "fst (meld st player groups) \<longleftrightarrow>
      list_all spec_valid_meld groups \<and>
      length (concat groups) \<noteq> length (hand p) \<and>
      (list_ex (\<lambda>m. meld_playerID m = Some player) (game_melds st) \<or>
       length groups = fst (claimed_shape (game_round st)) \<and>
       list_all (\<lambda>g. snd (claimed_shape (game_round st)) \<le> length g \<and> spec_type g \<noteq> RUN) groups)"
proof -
  have v: "list_all constructible groups = list_all spec_valid_meld groups"
    using assms(4) by (induction groups) (auto simp: constructible_spec)
  have t: "list_all (\<lambda>g. k \<le> length g \<and> group_type g \<noteq> RUN) groups =
      list_all (\<lambda>g. k \<le> length g \<and> spec_type g \<noteq> RUN) groups" for k
    using assms(4) by (induction groups) (auto simp: constructible_spec)
  show ?thesis
    unfolding meld_closed_form [OF assms(1-3), THEN conjunct1] v t hasMeld_def ..
qed

text \<open>
  In round 1, where a first meld takes two groups, Ann, who owns a meld, lays down
  one group of three threes.
\<close>

lemma second_meld_example:
  "fst (meld table_threes ''ann'' [[three_clubs, three_diamonds, three_hearts]]) \<and>
   fst (claimed_shape (game_round table_threes)) = 2"
proof -
  let ?g = "[[three_clubs, three_diamonds, three_hearts]]"
  let ?a = "ann\<lparr>hand := [three_clubs, three_diamonds, three_hearts, nine_hearts]\<rparr>"
  have p: "map_of (players table_threes) ''ann'' = Some ?a"
    by (simp add: table_threes_def)
  have r: "1 \<le> game_round table_threes" "game_round table_threes \<le> 6"
    by (simp_all add: table_threes_def table_simps)
  have g: "list_all (\<lambda>g. 3 \<le> length g \<and> list_all (\<lambda>c. card_order c \<noteq> 0) g) ?g"
    by (simp add: example_cards three_diamonds_def three_hearts_def)
  have v: "spec_valid_meld [three_clubs, three_diamonds, three_hearts]"
    by (simp add: spec_valid_meld_def spec_isSet_def example_cards three_diamonds_def three_hearts_def)
  have o: "list_ex (\<lambda>m. meld_playerID m = Some ''ann'') (game_melds table_threes)"
    by (simp add: table_threes_def table_simps fives_def)
  have "fst (meld table_threes ''ann'' ?g)"
    unfolding meld_accepts_spec [OF p r g] using v o by simp
  then show ?thesis by (simp add: claimed_shape_def table_threes_def table_simps)
qed

text \<open>
  C2. \<open>meld\<close> departs from the claim on a group of fewer than three cards. Ann
  owns the meld of three fives and holds the 5 of spades and the 9 of hearts; the
  9 of hearts alone is no valid meld of the specification, and \<open>meld\<close> accepts it:
  the card leaves her hand and a meld of one card is appended.
\<close>

theorem meld_accepts_single_card:
  "list_ex (\<lambda>m. meld_playerID m = Some ''ann'') (game_melds table_second_meld) \<and>
   \<not> spec_valid_meld [nine_hearts] \<and>
   meld table_second_meld ''ann'' [[nine_hearts]] =
     (True,
      table_second_meld\<lparr>players := [(''ann'', ann\<lparr>hand := [five_spades]\<rparr>), (''bob'', bob)],
            game_melds := [fives, \<lparr>meld_id = Some 1, meld_cards = [nine_hearts], meld_type = EITHER,
                                   meld_playerID = Some ''ann''\<rparr>]\<rparr>)"
  by (simp add: meld_def Meld_new_def hasMeld_def isRun_def isSet_def run_loop.simps Let_def
      table_second_meld_def table_simps fives_def ann_def Player_new_def example_cards
      spec_valid_meld_def)

section \<open>Properties of the deck and of dealing\<close>

lemma length_copies_loop: "length (copies_loop n k r s) = n"
  by (induction n arbitrary: k) auto

lemma length_ranks_loop: "length (ranks_loop rs decks k s) = length rs * decks"
  by (induction rs arbitrary: k) (auto simp: length_copies_loop)

lemma length_suits_loop: "length (suits_loop ss rs decks k) = length ss * (length rs * decks)"
  by (induction ss arbitrary: k) (auto simp: length_ranks_loop)

lemma filter_copies_loop:
  "filter (\<lambda>c. card_rank c = r' \<and> card_suit c = s') (copies_loop n k r s)
     = (if r = r' \<and> s = s' then copies_loop n k r s else [])"
  by (induction n arbitrary: k) (auto simp: Card_new_def)

lemma count_ranks_loop:
  "length (filter (\<lambda>c. card_rank c = r' \<and> card_suit c = s') (ranks_loop rs decks k s))
     = (if s = s' then count_list rs r' * decks else 0)"
  by (induction rs arbitrary: k) (auto simp: filter_copies_loop length_copies_loop)

lemma count_suits_loop:
  "length (filter (\<lambda>c. card_rank c = r' \<and> card_suit c = s') (suits_loop ss rs decks k))
     = count_list ss s' * (count_list rs r' * decks)"
  by (induction ss arbitrary: k) (auto simp: count_ranks_loop)

lemma map_upt_add:
  "map f [0..<m + n] = map f [0..<m] @ map (\<lambda>i. f (m + i)) [0..<n]"
  by (induction n) simp_all

lemma ids_copies_loop: "map card_id (copies_loop n k r s) = map (\<lambda>i. k + int i) [0..<n]"
proof (induction n arbitrary: k)
  case 0
  then show ?case by simp
next
  case (Suc n)
  have "[0..<Suc n] = 0 # map Suc [0..<n]"
    by (simp add: upt_conv_Cons map_Suc_upt del: upt_Suc)
  then have "map (\<lambda>i. k + int i) [0..<Suc n] = k # map (\<lambda>i. k + 1 + int i) [0..<n]"
    by (simp add: add.assoc o_def del: upt_Suc)
  with Suc show ?case by (simp add: Card_new_def del: upt_Suc)
qed

lemma ids_ranks_loop:
  "map card_id (ranks_loop rs decks k s) = map (\<lambda>i. k + int i) [0..<length rs * decks]"
proof (induction rs arbitrary: k)
  case Nil
  then show ?case by simp
next
  case (Cons r rs)
  have "map (\<lambda>i. k + int i) [0..<decks + length rs * decks]
        = map (\<lambda>i. k + int i) [0..<decks] @ map (\<lambda>i. k + int (decks + i)) [0..<length rs * decks]"
    by (rule map_upt_add)
  with Cons show ?case by (simp add: ids_copies_loop add.assoc)
qed

lemma ids_suits_loop:
  "map card_id (suits_loop ss rs decks k) = map (\<lambda>i. k + int i) [0..<length ss * (length rs * decks)]"
proof (induction ss arbitrary: k)
  case Nil
  then show ?case by simp
next
  case (Cons s ss)
  have "map (\<lambda>i. k + int i) [0..<length rs * decks + length ss * (length rs * decks)]
        = map (\<lambda>i. k + int i) [0..<length rs * decks]
          @ map (\<lambda>i. k + int (length rs * decks + i)) [0..<length ss * (length rs * decks)]"
    by (rule map_upt_add)
  with Cons show ?case by (simp add: ids_ranks_loop add.assoc)
qed

lemma suits_ranks: "length suits = 4" "length ranks = 13" "distinct suits" "distinct ranks"
  by (simp_all add: suits_def ranks_def)

lemma length_fresh_deck: "length fresh_deck = 104"
  by (simp add: fresh_deck_def length_suits_loop suits_ranks)

lemma ids_fresh_deck: "map card_id fresh_deck = map (\<lambda>i. 1 + int i) [0..<104]"
  by (simp add: fresh_deck_def ids_suits_loop suits_ranks)

lemma distinct_ids_fresh_deck: "distinct (map card_id fresh_deck)"
proof -
  have "inj_on (\<lambda>i. 1 + int i) (set [0..<104])"
    by (rule inj_onI) simp
  then show ?thesis
    unfolding ids_fresh_deck by (simp only: distinct_map distinct_upt simp_thms)
qed

lemma count_list_distinct: "distinct xs \<Longrightarrow> x \<in> set xs \<Longrightarrow> count_list xs x = 1"
  by (induction xs) auto

lemma two_of_each:
  assumes "s \<in> set suits" and "r \<in> set ranks"
  shows "length (filter (\<lambda>c. card_rank c = r \<and> card_suit c = s) fresh_deck) = 2"
proof -
  have "count_list suits s = 1" "count_list ranks r = 1"
    using assms suits_ranks(3,4) by (simp_all add: count_list_distinct)
  then show ?thesis by (simp add: fresh_deck_def count_suits_loop)
qed

lemma ranks_have_entries:
  "list_all (\<lambda>r. map_of values_map r \<noteq> None \<and> map_of order_map r \<noteq> None) ranks"
  by (simp add: ranks_def values_map_def order_map_def)

subsection \<open>Shuffling\<close>

lemma shuffle_step:
  assumes "i < length d"
  shows "mset (d[i := d ! (r mod length d), r mod length d := d ! i]) = mset d"
proof -
  have "0 < length d" using assms by arith
  then have "r mod length d < length d" by simp
  then show ?thesis using assms by (simp add: mset_swap)
qed

lemma shuffle_fold:
  "\<forall>i\<in>set is. i < length d \<Longrightarrow>
   mset (fold (\<lambda>i d. let randomCard = rnd i mod length d in d[i := d ! randomCard, randomCard := d ! i]) is d)
     = mset d"
proof (induction "is" arbitrary: d)
  case Nil
  then show ?case by simp
next
  case (Cons i "is")
  let ?d = "d[i := d ! (rnd i mod length d), rnd i mod length d := d ! i]"
  have "\<forall>j\<in>set is. j < length ?d" using Cons.prems by simp
  from Cons.IH [OF this] show ?case
    using Cons.prems by (simp add: Let_def shuffle_step)
qed

lemma mset_shuffle: "mset (shuffle rnd cs) = mset cs"
  by (simp add: shuffle_def shuffle_fold)

lemma length_shuffle: "length (shuffle rnd cs) = length cs"
  by (metis mset_shuffle size_mset)

subsection \<open>Dealing\<close>

lemma drawCard_Cons: "deck d = c # cs \<Longrightarrow> drawCard d = (Some c, d\<lparr>deck := cs\<rparr>)"
  by (simp add: drawCard_def)

lemma drawCard_Nil: "deck d = [] \<Longrightarrow> drawCard d = (None, d)"
  by (simp add: drawCard_def)

lemma dealt_to_refl: "dealt_to 0 kp kp"
  by (simp add: dealt_to_def)

lemma dealt_to_trans:
  assumes "dealt_to a x y" and "dealt_to b y z"
  shows "dealt_to (a + b) x z"
proof -
  have le: "length (hand (snd x)) \<le> length (hand (snd y))"
    using assms(1) by (simp add: dealt_to_def)
  have "take (length (hand (snd x))) (hand (snd z))
        = take (length (hand (snd x))) (take (length (hand (snd y))) (hand (snd z)))"
    using le by (simp add: min_def)
  also have "\<dots> = hand (snd x)"
    using assms by (simp add: dealt_to_def)
  finally have tk: "take (length (hand (snd x))) (hand (snd z)) = hand (snd x)" .
  have "snd z = (snd y)\<lparr>hand := hand (snd z)\<rparr>" "snd y = (snd x)\<lparr>hand := hand (snd y)\<rparr>"
    using assms by (simp_all add: dealt_to_def)
  then have "snd z = (snd x)\<lparr>hand := hand (snd z)\<rparr>"
    by (metis Player.surjective Player.update_convs(6))
  then show ?thesis
    using assms tk by (simp add: dealt_to_def)
qed

lemma deal_pass_ok:
  "length ps \<le> length (deck d) \<Longrightarrow>
   \<exists>ps'. deal_pass ps d = Inr (ps', d\<lparr>deck := drop (length ps) (deck d)\<rparr>) \<and>
         list_all2 (dealt_to 1) ps ps' \<and>
         hands_mset ps' = hands_mset ps + mset (take (length ps) (deck d))"
proof (induction ps arbitrary: d)
  case Nil
  then show ?case by simp
next
  case (Cons kp ps)
  obtain k p where kp: "kp = (k, p)" by (cases kp)
  from Cons.prems obtain c cs where d: "deck d = c # cs" by (cases "deck d") auto
  have "length ps \<le> length (deck (d\<lparr>deck := cs\<rparr>))" using Cons.prems d by simp
  from Cons.IH [OF this] obtain ps' where
    ih: "deal_pass ps (d\<lparr>deck := cs\<rparr>) = Inr (ps', d\<lparr>deck := drop (length ps) cs\<rparr>)"
      "list_all2 (dealt_to 1) ps ps'"
      "hands_mset ps' = hands_mset ps + mset (take (length ps) cs)"
    by auto
  have "deal_pass (kp # ps) d =
      Inr ((k, p\<lparr>hand := hand p @ [c]\<rparr>) # ps', d\<lparr>deck := drop (length (kp # ps)) (deck d)\<rparr>)"
    by (simp add: kp drawCard_Cons [OF d] ih(1) d)
  moreover have "dealt_to 1 kp (k, p\<lparr>hand := hand p @ [c]\<rparr>)"
    by (simp add: kp dealt_to_def)
  moreover have "hands_mset ((k, p\<lparr>hand := hand p @ [c]\<rparr>) # ps')
      = hands_mset (kp # ps) + mset (take (length (kp # ps)) (deck d))"
    by (simp add: kp ih(3) d)
  ultimately show ?case using ih(2) by auto
qed

lemma deal_pass_fail:
  "length (deck d) < length ps \<Longrightarrow> deal_pass ps d = Inl UndefinedCard"
proof (induction ps arbitrary: d)
  case Nil
  then show ?case by simp
next
  case (Cons kp ps)
  obtain k p where kp: "kp = (k, p)" by (cases kp)
  show ?case
  proof (cases "deck d")
    case Nil
    then show ?thesis by (simp add: kp drawCard_Nil)
  next
    case (Cons c cs)
    then have "length (deck (d\<lparr>deck := cs\<rparr>)) < length ps" using Cons.prems by simp
    from Cons.IH [OF this] show ?thesis
      by (simp add: kp drawCard_Cons [OF Cons])
  qed
qed

lemma deal_loop_ok:
  "n * length ps \<le> length (deck d) \<Longrightarrow>
   \<exists>ps'. deal_loop n ps d = Inr (ps', d\<lparr>deck := drop (n * length ps) (deck d)\<rparr>) \<and>
         list_all2 (dealt_to n) ps ps' \<and>
         hands_mset ps' = hands_mset ps + mset (take (n * length ps) (deck d))"
proof (induction n arbitrary: ps d)
  case 0
  have "list_all2 (dealt_to 0) ps ps"
    by (simp add: list_all2_same dealt_to_refl)
  then show ?case by simp
next
  case (Suc n)
  let ?N = "length ps"
  have "?N \<le> length (deck d)" using Suc.prems by simp
  from deal_pass_ok [OF this] obtain ps1 where
    p1: "deal_pass ps d = Inr (ps1, d\<lparr>deck := drop ?N (deck d)\<rparr>)"
      "list_all2 (dealt_to 1) ps ps1"
      "hands_mset ps1 = hands_mset ps + mset (take ?N (deck d))"
    by auto
  have len: "length ps1 = ?N" using p1(2) by (simp add: list_all2_lengthD)
  have "n * length ps1 \<le> length (deck (d\<lparr>deck := drop ?N (deck d)\<rparr>))"
    using Suc.prems len by simp
  from Suc.IH [OF this] obtain ps2 where
    p2: "deal_loop n ps1 (d\<lparr>deck := drop ?N (deck d)\<rparr>)
           = Inr (ps2, d\<lparr>deck := drop (n * ?N) (drop ?N (deck d))\<rparr>)"
      "list_all2 (dealt_to n) ps1 ps2"
      "hands_mset ps2 = hands_mset ps1 + mset (take (n * ?N) (drop ?N (deck d)))"
    by (auto simp: len)
  have "deal_loop (Suc n) ps d = Inr (ps2, d\<lparr>deck := drop (Suc n * ?N) (deck d)\<rparr>)"
    by (simp add: p1(1) p2(1) add.commute)
  moreover have "list_all2 (dealt_to (Suc n)) ps ps2"
    using list_all2_trans [of "dealt_to 1" "dealt_to n" "dealt_to (Suc n)" ps ps1 ps2]
      dealt_to_trans [of 1 _ _ n] p1(2) p2(2) by auto
  moreover have "take (Suc n * ?N) (deck d) = take ?N (deck d) @ take (n * ?N) (drop ?N (deck d))"
    by (simp add: take_add)
  then have "hands_mset ps2 = hands_mset ps + mset (take (Suc n * ?N) (deck d))"
    using p1(3) p2(3) by (simp del: mult_Suc)
  ultimately show ?case by blast
qed

lemma deal_loop_fail:
  "length (deck d) < n * length ps \<Longrightarrow> deal_loop n ps d = Inl UndefinedCard"
proof (induction n arbitrary: ps d)
  case 0
  then show ?case by simp
next
  case (Suc n)
  show ?case
  proof (cases "length (deck d) < length ps")
    case True
    then show ?thesis by (simp add: deal_pass_fail)
  next
    case False
    then have "length ps \<le> length (deck d)" by simp
    from deal_pass_ok [OF this] obtain ps1 where
      p1: "deal_pass ps d = Inr (ps1, d\<lparr>deck := drop (length ps) (deck d)\<rparr>)"
        "list_all2 (dealt_to 1) ps ps1"
      by auto
    have len: "length ps1 = length ps" using p1(2) by (simp add: list_all2_lengthD)
    have "length (deck (d\<lparr>deck := drop (length ps) (deck d)\<rparr>)) < n * length ps1"
      using Suc.prems False len by simp
    from Suc.IH [OF this] show ?thesis by (simp add: p1(1))
  qed
qed

lemma deal_ok:
  assumes "length (players st) \<le> 9"
  shows "\<exists>ps. deal rnd st =
        Inr (st\<lparr>players := ps,
                game_deck := Some \<lparr>deck = drop (Suc (11 * length (players st))) (shuffle rnd fresh_deck),
                                   discarded = [shuffle rnd fresh_deck ! (11 * length (players st))]\<rparr>\<rparr>) \<and>
      list_all2 (dealt_to 11) (players st) ps \<and>
      add_mset (shuffle rnd fresh_deck ! (11 * length (players st)))
          (mset (drop (Suc (11 * length (players st))) (shuffle rnd fresh_deck))) + hands_mset ps
        = mset fresh_deck + hands_mset (players st)"
proof -
  let ?D = "shuffle rnd fresh_deck"
  let ?N = "length (players st)"
  let ?d = "\<lparr>deck = ?D, discarded = []\<rparr>"
  have new: "Deck_new rnd suits ranks 2 True = ?d"
    by (simp add: Deck_new_def fresh_deck_def)
  have lenD: "length ?D = 104"
    by (simp add: length_shuffle length_fresh_deck)
  have "11 * ?N \<le> length (deck ?d)" using assms lenD by simp
  from deal_loop_ok [OF this] obtain ps where
    lp: "deal_loop 11 (players st) ?d = Inr (ps, ?d\<lparr>deck := drop (11 * ?N) ?D\<rparr>)"
      "list_all2 (dealt_to 11) (players st) ps"
      "hands_mset ps = hands_mset (players st) + mset (take (11 * ?N) ?D)"
    by auto
  have "11 * ?N < length ?D" using assms lenD by simp
  then have dr: "drop (11 * ?N) ?D = ?D ! (11 * ?N) # drop (Suc (11 * ?N)) ?D"
    by (simp add: Cons_nth_drop_Suc)
  have "deal rnd st =
      Inr (st\<lparr>players := ps,
              game_deck := Some \<lparr>deck = drop (Suc (11 * ?N)) ?D, discarded = [?D ! (11 * ?N)]\<rparr>\<rparr>)"
    by (simp add: deal_def new lp(1) drawCard_def dr discardCard_def)
  moreover have "add_mset (?D ! (11 * ?N)) (mset (drop (Suc (11 * ?N)) ?D)) + hands_mset ps
      = mset fresh_deck + hands_mset (players st)"
  proof -
    have "mset ?D = mset (take (11 * ?N) ?D) + mset (drop (11 * ?N) ?D)"
      by (metis append_take_drop_id mset_append)
    then have "mset fresh_deck = mset (take (11 * ?N) ?D)
        + add_mset (?D ! (11 * ?N)) (mset (drop (Suc (11 * ?N)) ?D))"
      by (simp add: mset_shuffle dr)
    then show ?thesis by (simp add: lp(3))
  qed
  ultimately show ?thesis using lp(2) by blast
qed


lemma deal_out_of_cards:
  assumes "10 \<le> length (players st)"
  shows "deal rnd st = Inl UndefinedCard"
proof -
  have "length (deck (Deck_new rnd suits ranks 2 True)) = 104"
    by (simp add: Deck_new_def length_shuffle fresh_deck_def [symmetric] length_fresh_deck)
  then have "length (deck (Deck_new rnd suits ranks 2 True)) < 11 * length (players st)"
    using assms by simp
  then show ?thesis by (simp add: deal_def deal_loop_fail)
qed



text \<open>
  C9, as amended. With at most 9 players, dealing succeeds: every player is given
  exactly 11 cards behind the cards already held, one card is on the discard pile,
  the draw pile has 104 - 11 N - 1 cards, and the cards dealt, discarded and left
  are those of the fresh deck, which holds 104 cards of distinct ids, two for each
  of the 52 combinations of a suit and a rank.
\<close>

theorem deal_counts:
  assumes "length (players st) \<le> 9"
  shows "(case deal rnd st of
            Inl e \<Rightarrow> False
          | Inr st' \<Rightarrow>
              st' = st\<lparr>players := players st', game_deck := game_deck st'\<rparr> \<and>
              list_all2 (dealt_to 11) (players st) (players st') \<and>
              (case game_deck st' of
                 None \<Rightarrow> False
               | Some d \<Rightarrow>
                   length (discarded d) = 1 \<and>
                   int (length (deck d)) = 104 - 11 * int (length (players st)) - 1 \<and>
                   mset (deck d) + mset (discarded d) + hands_mset (players st')
                     = mset fresh_deck + hands_mset (players st))) \<and>
         length fresh_deck = 104 \<and> distinct (map card_id fresh_deck) \<and>
         length suits * length ranks = 52 \<and> distinct suits \<and> distinct ranks \<and>
         list_all (\<lambda>s. list_all (\<lambda>r.
            length (filter (\<lambda>c. card_rank c = r \<and> card_suit c = s) fresh_deck) = 2) ranks) suits"
proof -
  from deal_ok [OF assms, of rnd] obtain ps where
    d: "deal rnd st =
        Inr (st\<lparr>players := ps,
                game_deck := Some \<lparr>deck = drop (Suc (11 * length (players st))) (shuffle rnd fresh_deck),
                                   discarded = [shuffle rnd fresh_deck ! (11 * length (players st))]\<rparr>\<rparr>)"
    and l: "list_all2 (dealt_to 11) (players st) ps"
    and m: "add_mset (shuffle rnd fresh_deck ! (11 * length (players st)))
          (mset (drop (Suc (11 * length (players st))) (shuffle rnd fresh_deck))) + hands_mset ps
        = mset fresh_deck + hands_mset (players st)"
    by blast
  have len: "int (length (drop (Suc (11 * length (players st))) (shuffle rnd fresh_deck)))
      = 104 - 11 * int (length (players st)) - 1"
    using assms by (simp add: length_shuffle length_fresh_deck)
  have first: "case deal rnd st of
            Inl e \<Rightarrow> False
          | Inr st' \<Rightarrow>
              st' = st\<lparr>players := players st', game_deck := game_deck st'\<rparr> \<and>
              list_all2 (dealt_to 11) (players st) (players st') \<and>
              (case game_deck st' of
                 None \<Rightarrow> False
               | Some d \<Rightarrow>
                   length (discarded d) = 1 \<and>
                   int (length (deck d)) = 104 - 11 * int (length (players st)) - 1 \<and>
                   mset (deck d) + mset (discarded d) + hands_mset (players st')
                     = mset fresh_deck + hands_mset (players st))"
    using l m len by (simp add: d)
  have two: "list_all (\<lambda>s. list_all (\<lambda>r.
            length (filter (\<lambda>c. card_rank c = r \<and> card_suit c = s) fresh_deck) = 2) ranks) suits"
    by (simp add: list_all_iff two_of_each)
  from first two show ?thesis
    by (simp add: length_fresh_deck distinct_ids_fresh_deck suits_ranks)
qed

lemma start2_simps:
  "players start2 = [(''ann'', Player_new ''ann'' (Some ''s1'') ''Ann''),
                     (''bob'', Player_new ''bob'' (Some ''s2'') ''Bob'')]"
  "turn start2 = 0" "turnOrder start2 = [''ann'', ''bob'']" "game_melds start2 = []"
  by (simp_all add: start2_def addPlayer_def MayI_new_def)

theorem deal_counts_witness:
  "length (players start2) \<le> 9 \<and>
   (case deal unshuffled start2 of
            Inl e \<Rightarrow> False
          | Inr st' \<Rightarrow>
              st' = start2\<lparr>players := players st', game_deck := game_deck st'\<rparr> \<and>
              list_all2 (dealt_to 11) (players start2) (players st') \<and>
              (case game_deck st' of
                 None \<Rightarrow> False
               | Some d \<Rightarrow>
                   length (discarded d) = 1 \<and>
                   int (length (deck d)) = 81 \<and>
                   mset (deck d) + mset (discarded d) + hands_mset (players st') = mset fresh_deck))"
proof -
  have h: "length (players start2) \<le> 9" by (simp add: start2_simps)
  have e: "hands_mset (players start2) = {#}" "int (length (players start2)) = 2"
    by (simp_all add: start2_simps Player_new_def)
  from deal_counts [OF h, of unshuffled] have
    "case deal unshuffled start2 of
            Inl e \<Rightarrow> False
          | Inr st' \<Rightarrow>
              st' = start2\<lparr>players := players st', game_deck := game_deck st'\<rparr> \<and>
              list_all2 (dealt_to 11) (players start2) (players st') \<and>
              (case game_deck st' of
                 None \<Rightarrow> False
               | Some d \<Rightarrow>
                   length (discarded d) = 1 \<and>
                   int (length (deck d)) = 104 - 11 * int (length (players start2)) - 1 \<and>
                   mset (deck d) + mset (discarded d) + hands_mset (players st')
                     = mset fresh_deck + hands_mset (players start2))"
    by (rule conjunct1)
  then show ?thesis using h unfolding e by (auto split: sum.splits option.splits)
qed

lemma length_table_of_ten: "length (players table_of_ten) = 10"
  by (simp add: table_of_ten_def addPlayer_def MayI_new_def)

text \<open>
  C9 as stated fails for ten players: the deck runs out in the eleventh pass, where
  the source goes on dealing \<open>undefined\<close>.
\<close>

theorem deal_ten_players:
  "length (players table_of_ten) = 10 \<and> deal unshuffled table_of_ten = Inl UndefinedCard"
  using deal_out_of_cards [of table_of_ten unshuffled] by (simp add: length_table_of_ten)

section \<open>Conservation of the cards\<close>



lemma update_meld_same:
  "find (\<lambda>m. meld_id m = Some meldID) ms = Some m \<Longrightarrow> update_meld meldID m ms = ms"
  by (induction ms) (auto split: if_splits)




































section \<open>The priority of a buy\<close>







end
